theory Spec2Isabelle
  imports Main "HOL-Library.AList"
begin

section \<open>Entities of \<^verbatim>\<open>Scheduler.py\<close>: identity by id\<close>

text \<open>
  \<^verbatim>\<open>Scheduler.py\<close> declares three dataclasses, each with its own \<^verbatim>\<open>__eq__\<close> and
  \<^verbatim>\<open>__hash__\<close>. The field \<^verbatim>\<open>id\<close> is written \<open>id_Resource\<close> and \<open>id_Task\<close>, since
  \<open>id\<close> is the identity function of HOL. An availability slot is the dictionary
  \<^verbatim>\<open>{"slot_id": .., "start": .., "end": ..}\<close> of the source.
\<close>

record slot =
  slot_id :: int
  slot_start :: int
  slot_end :: int

datatype Resource =
  Resource (id_Resource: int) (availability_slots: "slot list")

datatype ResourceGroup =
  ResourceGroup (resource_group_id: int) (resources: "Resource list")

datatype Task =
  Task (id_Task: int) (duration_Task: int) (priority_Task: int)
       (resource_group: ResourceGroup) (predecessors: "Task list option")

text \<open>
  The right operand of \<^verbatim>\<open>==\<close> is any Python object; \<open>OtherObj\<close> stands for a value of
  a class that is none of the three.
\<close>

datatype pyobj =
  ResourceObj Resource
| ResourceGroupObj ResourceGroup
| TaskObj Task
| OtherObj

text \<open>
  \<^verbatim>\<open>hash\<close> of a Python integer (CPython, 64 bit): the value modulo the Mersenne prime
  \<open>2 ^ 61 - 1\<close>, with the sign of the argument, and \<open>-2\<close> in place of \<open>-1\<close>.
\<close>

definition hash_int :: "int \<Rightarrow> int" where
  "hash_int n =
     (let h = sgn n * (\<bar>n\<bar> mod (2 ^ 61 - 1))
      in if h = - 1 then - 2 else h)"

text \<open>\<^verbatim>\<open>__eq__\<close> returns a truth value or \<^verbatim>\<open>NotImplemented\<close>, which is \<open>None\<close> here.\<close>

definition Resource_eq :: "Resource \<Rightarrow> pyobj \<Rightarrow> bool option" where
  "Resource_eq self other =
     (case other of
        ResourceObj r \<Rightarrow> Some (id_Resource self = id_Resource r)
      | _ \<Rightarrow> None)"

definition Resource_hash :: "Resource \<Rightarrow> int" where
  "Resource_hash self = hash_int (id_Resource self)"

definition ResourceGroup_eq :: "ResourceGroup \<Rightarrow> pyobj \<Rightarrow> bool option" where
  "ResourceGroup_eq self other =
     (case other of
        ResourceGroupObj g \<Rightarrow> Some (resource_group_id self = resource_group_id g)
      | _ \<Rightarrow> None)"

definition ResourceGroup_hash :: "ResourceGroup \<Rightarrow> int" where
  "ResourceGroup_hash self = hash_int (resource_group_id self)"

definition Task_eq :: "Task \<Rightarrow> pyobj \<Rightarrow> bool option" where
  "Task_eq self other =
     (case other of
        TaskObj t \<Rightarrow> Some (id_Task self = id_Task t)
      | _ \<Rightarrow> None)"

definition Task_hash :: "Task \<Rightarrow> int" where
  "Task_hash self = hash_int (id_Task self)"

definition Task_get_resources :: "Task \<Rightarrow> Resource list" where
  "Task_get_resources self = resources (resource_group self)"

section \<open>The heuristic solver of \<^verbatim>\<open>heuristic_solver/main.py\<close>\<close>

subsection \<open>Values\<close>

text \<open>
  Times are Python integers. A window and an allocated interval are pairs
  \<open>(start, end)\<close>, read as the half-open interval from \<open>start\<close> to \<open>end\<close>. Task ids
  are strings, resource ids integers. A Python dictionary is an association list in
  insertion order: \<open>map_of\<close> reads a key, \<open>AList.update\<close> writes one (in place when the
  key is there, at the end when it is new).
\<close>

type_synonym window = "int \<times> int"
type_synonym windows_dict = "(int \<times> window list) list"
type_synonym allocation = "(int \<times> window) list"

datatype exn =
  KeyError
| ValueError
| InvariantViolation
| AllocationError string
| OtherException string

text \<open>
  The classes \<^verbatim>\<open>Task\<close> and \<^verbatim>\<open>Resource\<close> that \<^verbatim>\<open>main.py\<close> imports from the package's
  models are not among the sources; the records below hold the attributes the solver
  reads. The types of \<^verbatim>\<open>assignments\<close> and \<^verbatim>\<open>constraints\<close> are left open: the solver
  only hands them to the allocator.
\<close>

record resource =
  resource_id :: int
  available_windows :: "window list"

record ('a, 'c) task =
  id_task :: string
  duration :: int
  predecessor_delay :: int
  assignments :: 'a
  constraints :: 'c

text \<open>
  A value of a dictionary entry that may be missing: the dictionary written for a
  scheduled task (lines 78 to 88) has no key \<^verbatim>\<open>"error_message"\<close>, whereas the initial
  one (lines 22 to 29) has it with the value \<^verbatim>\<open>None\<close>.
\<close>

datatype 'a entry = Missing | Entry 'a

record task_values =
  task_id :: string
  assigned_resource_ids :: "int list option"
  task_start :: "int option"
  task_end :: "int option"
  resource_intervals :: "window list option"
  error_message :: "string option entry"

type_synonym task_vars = "(string \<times> task_values) list"

text \<open>
  The collaborators whose code is not among the sources are parameters of the model:
  \<^verbatim>\<open>get_task_predecessors\<close> of the scheduler's utilities, the method
  \<^verbatim>\<open>get_unique_resources\<close> of a task, and \<^verbatim>\<open>TaskAllocator.allocate_task\<close>, which
  returns the allocation or raises. The first two are taken to return a value; the
  solver has no handler around their calls.
\<close>

record ('a, 'c) collaborators =
  get_task_predecessors ::
    "('a, 'c) task \<Rightarrow> (string \<times> ('a, 'c) task) list \<Rightarrow> ('a, 'c) task list"
  get_unique_resources :: "('a, 'c) task \<Rightarrow> resource list"
  allocate_task :: "windows_dict \<Rightarrow> 'a \<Rightarrow> int \<Rightarrow> 'c \<Rightarrow> exn + allocation"

subsection \<open>Calendars and the window manager\<close>

text \<open>The points of time a window covers, and those a calendar covers.\<close>

definition span :: "window \<Rightarrow> int set" where
  "span w = {fst w ..< snd w}"

definition covered :: "window list \<Rightarrow> int set" where
  "covered ws = (\<Union>w \<in> set ws. span w)"

text \<open>
  Modelled from the spec: the class \<^verbatim>\<open>WindowManager\<close> (module \<^verbatim>\<open>window_manager\<close>) is
  missing from the sources. Merging: "Windows are always merged/normalized so adjacent
  or overlapping windows never persist". On a calendar sorted by start, a window that
  begins at or before the end of the one before it is joined to it.
\<close>

fun normalise :: "window list \<Rightarrow> window list" where
  "normalise [] = []"
| "normalise [w] = [w]"
| "normalise ((s, e) # (s', e') # ws) =
     (if s' \<le> e then normalise ((s, max e e') # ws)
      else (s, e) # normalise ((s', e') # ws))"

text \<open>
  Modelled from the spec: the constructor of the missing \<^verbatim>\<open>WindowManager\<close>, which "owns
  one Calendar per resource", each kept merged. The dictionary is filled resource by
  resource.
\<close>

definition WindowManager :: "resource list \<Rightarrow> windows_dict" where
  "WindowManager rs =
     foldl (\<lambda>d r. AList.update (resource_id r) (normalise (available_windows r)) d) [] rs"

text \<open>The calendar of a resource; a resource the manager does not know has no window.\<close>

definition calendar :: "windows_dict \<Rightarrow> int \<Rightarrow> window list" where
  "calendar wm rid = (case map_of wm rid of None \<Rightarrow> [] | Some ws \<Rightarrow> ws)"

text \<open>
  Modelled from the spec: the query of the missing \<^verbatim>\<open>WindowManager\<close>. It "returns only
  the portion of its availability at or after \<open>floor_time\<close> (a window straddling
  \<open>floor_time\<close> is clipped so its start becomes \<open>floor_time\<close>)".
\<close>

fun windows_from :: "window list \<Rightarrow> int \<Rightarrow> window list" where
  "windows_from [] floor_time = []"
| "windows_from ((s, e) # ws) floor_time =
     (if e \<le> floor_time then windows_from ws floor_time
      else (max s floor_time, e) # windows_from ws floor_time)"

text \<open>
  Modelled from the spec: \<^verbatim>\<open>WindowManager.get_task_resource_windows_dict\<close>, missing from
  the sources. "Resources with no availability at or after \<open>floor_time\<close> are omitted
  entirely from the result. If no requested resource has any availability, returns an
  empty mapping".
\<close>

definition get_task_resource_windows_dict ::
    "windows_dict \<Rightarrow> int list \<Rightarrow> int \<Rightarrow> windows_dict" where
  "get_task_resource_windows_dict wm task_resource_ids floor_time =
     foldl (\<lambda>d rid.
              (let ws = windows_from (calendar wm rid) floor_time
               in if ws = [] then d else AList.update rid ws d))
           [] task_resource_ids"

text \<open>
  Modelled from the spec: the removal of one sub-interval by the missing
  \<^verbatim>\<open>WindowManager\<close>. It "removes that exact span from the resource's availability,
  splitting a window into up to two remaining windows (before and after the consumed
  span) or removing it entirely if fully consumed", and fails (\<open>None\<close>) "if a supplied
  sub-interval is not fully contained within a single existing window".
\<close>

fun remove_span :: "window list \<Rightarrow> window \<Rightarrow> window list option" where
  "remove_span [] (s, e) = None"
| "remove_span ((ws, we) # rest) (s, e) =
     (if ws \<le> s \<and> s \<le> e \<and> e \<le> we
      then Some ((if ws < s then [(ws, s)] else []) @
                 (if e < we then [(e, we)] else []) @ rest)
      else map_option ((#) (ws, we)) (remove_span rest (s, e)))"

text \<open>
  Modelled from the spec: \<^verbatim>\<open>WindowManager.update_resource_windows\<close>, missing from the
  sources: the commit of an allocation, resource by resource, each calendar merged
  again afterwards. A span that lies in no single window is the fatal invariant
  violation of the spec.
\<close>

fun update_resource_windows :: "windows_dict \<Rightarrow> allocation \<Rightarrow> exn + windows_dict" where
  "update_resource_windows wm [] = Inr wm"
| "update_resource_windows wm ((rid, iv) # rest) =
     (case remove_span (calendar wm rid) iv of
        None \<Rightarrow> Inl InvariantViolation
      | Some ws \<Rightarrow> update_resource_windows (AList.update rid (normalise ws) wm) rest)"

subsection \<open>The solver\<close>

text \<open>
  The state of a \<^verbatim>\<open>HeuristicSolver\<close> that changes during a run: the calendars of its
  window manager and the table \<^verbatim>\<open>task_vars\<close>. The task dictionary and the task order are
  never written and are arguments.
\<close>

record solver =
  window_manager :: windows_dict
  task_vars :: task_vars

text \<open>Lines 21 to 31: one record per key of the task dictionary, every field \<^verbatim>\<open>None\<close>.\<close>

definition initial_values :: "string \<Rightarrow> task_values" where
  "initial_values k =
     \<lparr>task_id = k, assigned_resource_ids = None, task_start = None, task_end = None,
      resource_intervals = None, error_message = Entry None\<rparr>"

definition HeuristicSolver :: "(string \<times> ('a, 'c) task) list \<Rightarrow> resource list \<Rightarrow> solver" where
  "HeuristicSolver task_dict rs =
     \<lparr>window_manager = WindowManager rs,
      task_vars = map (\<lambda>k. (k, initial_values k)) (map fst task_dict)\<rparr>"

text \<open>
  \<^verbatim>\<open>max(task_ends, default=0)\<close> and the \<^verbatim>\<open>min\<close> and \<^verbatim>\<open>max\<close> of a generator: Python folds
  the sequence from its first element, and raises \<^verbatim>\<open>ValueError\<close> on an empty one when
  there is no default.
\<close>

definition max_default :: "int list \<Rightarrow> int \<Rightarrow> int" where
  "max_default xs d = (case xs of [] \<Rightarrow> d | y # ys \<Rightarrow> fold max ys y)"

definition py_min :: "int list \<Rightarrow> exn + int" where
  "py_min xs = (case xs of [] \<Rightarrow> Inl ValueError | y # ys \<Rightarrow> Inr (fold min ys y))"

definition py_max :: "int list \<Rightarrow> exn + int" where
  "py_max xs = (case xs of [] \<Rightarrow> Inl ValueError | y # ys \<Rightarrow> Inr (fold max ys y))"

text \<open>
  Lines 103 to 107, the loop of \<^verbatim>\<open>_get_task_earliest_start\<close>: \<open>Inr None\<close> is the early
  \<^verbatim>\<open>return None\<close>, \<open>Inl KeyError\<close> a predecessor id that \<^verbatim>\<open>task_vars\<close> does not have.
\<close>

fun task_ends_loop ::
    "task_vars \<Rightarrow> int \<Rightarrow> ('a, 'c) task list \<Rightarrow> int list \<Rightarrow> exn + int list option" where
  "task_ends_loop tv delay [] task_ends = Inr (Some task_ends)"
| "task_ends_loop tv delay (pred # preds) task_ends =
     (case map_of tv (id_task pred) of
        None \<Rightarrow> Inl KeyError
      | Some vals \<Rightarrow>
          (case task_end vals of
             None \<Rightarrow> Inr None
           | Some e \<Rightarrow> task_ends_loop tv delay preds (task_ends @ [e + delay])))"

definition get_task_earliest_start ::
    "('a, 'c) collaborators \<Rightarrow> task_vars \<Rightarrow> ('a, 'c) task \<Rightarrow>
     (string \<times> ('a, 'c) task) list \<Rightarrow> exn + int option" where
  "get_task_earliest_start env tv task task_dict =
     (case task_ends_loop tv (predecessor_delay task)
             (get_task_predecessors env task task_dict) [] of
        Inl x \<Rightarrow> Inl x
      | Inr None \<Rightarrow> Inr None
      | Inr (Some task_ends) \<Rightarrow> Inr (Some (max_default task_ends 0)))"

text \<open>Lines 111 to 116.\<close>

definition update_error_message :: "solver \<Rightarrow> string \<Rightarrow> string \<Rightarrow> exn + solver" where
  "update_error_message st tid message =
     (case map_of (task_vars st) tid of
        None \<Rightarrow> Inl KeyError
      | Some vals \<Rightarrow>
          Inr (st\<lparr>task_vars :=
                 AList.update tid (vals\<lparr>error_message := Entry (Some message)\<rparr>)
                   (task_vars st)\<rparr>))"

text \<open>
  Lines 46 to 72, from the known earliest start on: the window query, the test for the
  empty dictionary and the call of the allocator. The result is the message of the
  branch that ends with \<^verbatim>\<open>continue\<close>, or the allocation to commit. Only an
  \<^verbatim>\<open>AllocationError\<close> is caught.
\<close>

datatype outcome = Unscheduled string | Allocated allocation

definition allocate_from ::
    "('a, 'c) collaborators \<Rightarrow> solver \<Rightarrow> ('a, 'c) task \<Rightarrow> int \<Rightarrow> exn + outcome" where
  "allocate_from env st task task_earliest_start =
     (let task_resource_ids = map resource_id (get_unique_resources env task);
          task_resource_windows_dict =
            get_task_resource_windows_dict (window_manager st) task_resource_ids
              task_earliest_start
      in if task_resource_windows_dict = []
         then Inr (Unscheduled ''No available resources'')
         else (case allocate_task env task_resource_windows_dict (assignments task)
                      (duration task) (constraints task) of
                 Inl x \<Rightarrow>
                   (case x of
                      AllocationError message \<Rightarrow> Inr (Unscheduled message)
                    | _ \<Rightarrow> Inl x)
               | Inr a \<Rightarrow> Inr (Allocated a)))"

text \<open>Lines 40 to 72: the decision for one task.\<close>

definition attempt_task ::
    "('a, 'c) collaborators \<Rightarrow> (string \<times> ('a, 'c) task) list \<Rightarrow> solver \<Rightarrow>
     ('a, 'c) task \<Rightarrow> exn + outcome" where
  "attempt_task env task_dict st task =
     (case get_task_earliest_start env (task_vars st) task task_dict of
        Inl x \<Rightarrow> Inl x
      | Inr None \<Rightarrow> Inr (Unscheduled ''Task has unscheduled predecessors'')
      | Inr (Some task_earliest_start) \<Rightarrow> allocate_from env st task task_earliest_start)"

text \<open>
  Lines 78 to 88: the dictionary written for a scheduled task. It has no key
  \<^verbatim>\<open>"error_message"\<close>. An empty allocation makes \<^verbatim>\<open>min\<close> raise.
\<close>

definition scheduled_values :: "string \<Rightarrow> allocation \<Rightarrow> exn + task_values" where
  "scheduled_values tid a =
     (case py_min (map (\<lambda>(rid, iv). fst iv) a) of
        Inl x \<Rightarrow> Inl x
      | Inr lo \<Rightarrow>
          (case py_max (map (\<lambda>(rid, iv). snd iv) a) of
             Inl x \<Rightarrow> Inl x
           | Inr hi \<Rightarrow>
               Inr \<lparr>task_id = tid, assigned_resource_ids = Some (map fst a),
                    task_start = Some lo, task_end = Some hi,
                    resource_intervals = Some (map snd a), error_message = Missing\<rparr>))"

text \<open>
  Lines 38 to 89, the body of the loop for one task id. The commit of line 75 comes
  before the values of line 78 are computed.
\<close>

definition process_task ::
    "('a, 'c) collaborators \<Rightarrow> (string \<times> ('a, 'c) task) list \<Rightarrow> solver \<Rightarrow> string \<Rightarrow>
     exn + solver" where
  "process_task env task_dict st tid =
     (case map_of task_dict tid of
        None \<Rightarrow> Inl KeyError
      | Some task \<Rightarrow>
          (case attempt_task env task_dict st task of
             Inl x \<Rightarrow> Inl x
           | Inr (Unscheduled message) \<Rightarrow> update_error_message st tid message
           | Inr (Allocated a) \<Rightarrow>
               (case update_resource_windows (window_manager st) a of
                  Inl x \<Rightarrow> Inl x
                | Inr wm \<Rightarrow>
                    (case scheduled_values tid a of
                       Inl x \<Rightarrow> Inl x
                     | Inr vals \<Rightarrow>
                         Inr \<lparr>window_manager = wm,
                              task_vars = AList.update tid vals (task_vars st)\<rparr>))))"

text \<open>Line 37: the loop over the task order; an exception ends the run.\<close>

fun solve_loop ::
    "('a, 'c) collaborators \<Rightarrow> (string \<times> ('a, 'c) task) list \<Rightarrow> string list \<Rightarrow> solver \<Rightarrow>
     exn + solver" where
  "solve_loop env task_dict [] st = Inr st"
| "solve_loop env task_dict (tid # task_order) st =
     (case process_task env task_dict st tid of
        Inl x \<Rightarrow> Inl x
      | Inr st' \<Rightarrow> solve_loop env task_dict task_order st')"

text \<open>Lines 33 to 93: \<^verbatim>\<open>solve\<close> on a freshly built solver.\<close>

definition solve ::
    "('a, 'c) collaborators \<Rightarrow> (string \<times> ('a, 'c) task) list \<Rightarrow> resource list \<Rightarrow>
     string list \<Rightarrow> exn + task_values list" where
  "solve env task_dict rs task_order =
     (case solve_loop env task_dict task_order (HeuristicSolver task_dict rs) of
        Inl x \<Rightarrow> Inl x
      | Inr st \<Rightarrow> Inr (map snd (task_vars st)))"

section \<open>Notions used in the statements\<close>

text \<open>The end that the table records for a task id, if any.\<close>

definition recorded_end :: "task_vars \<Rightarrow> string \<Rightarrow> int option" where
  "recorded_end tv k = (case map_of tv k of None \<Rightarrow> None | Some vals \<Rightarrow> task_end vals)"

text \<open>Every record of the table carries the key under which it is stored.\<close>

definition labelled :: "task_vars \<Rightarrow> bool" where
  "labelled tv = (\<forall>(k, vals) \<in> set tv. task_id vals = k)"

subsection \<open>A small instance\<close>

text \<open>
  An allocator for concrete runs: the task goes to the first resource of the
  dictionary, at the start of its first window, when it fits there.
\<close>

definition first_fit :: "windows_dict \<Rightarrow> unit \<Rightarrow> int \<Rightarrow> unit \<Rightarrow> exn + allocation" where
  "first_fit d a n c =
     (case d of
        (rid, (s, e) # ws) # rest \<Rightarrow>
          if s + n \<le> e then Inr [(rid, (s, s + n))]
          else Inl (AllocationError ''insufficient availability'')
      | _ \<Rightarrow> Inl (AllocationError ''insufficient availability''))"

text \<open>
  The scenarios of the spec: a resource with the windows \<open>[0, 4)\<close> and \<open>[5, 10)\<close>
  and a resource with no window at all; a task \<open>T\<close> of duration 3; a task \<open>T2\<close> that
  follows \<open>T\<close> with a delay of 2; a task \<open>T3\<close> of duration 20, too long for any
  window; a task \<open>T4\<close> for the resource without windows; a task \<open>T5\<close> that follows
  \<open>T2\<close>.
\<close>

definition example_resource :: resource where
  "example_resource = \<lparr>resource_id = 1, available_windows = [(0, 4), (5, 10)]\<rparr>"

definition example_idle :: resource where
  "example_idle = \<lparr>resource_id = 2, available_windows = []\<rparr>"

definition example_T :: "(unit, unit) task" where
  "example_T = \<lparr>id_task = ''T'', duration = 3, predecessor_delay = 0,
                  assignments = (), constraints = ()\<rparr>"

definition example_T2 :: "(unit, unit) task" where
  "example_T2 = \<lparr>id_task = ''T2'', duration = 2, predecessor_delay = 2,
                   assignments = (), constraints = ()\<rparr>"

definition example_T3 :: "(unit, unit) task" where
  "example_T3 = \<lparr>id_task = ''T3'', duration = 20, predecessor_delay = 0,
                   assignments = (), constraints = ()\<rparr>"

definition example_T4 :: "(unit, unit) task" where
  "example_T4 = \<lparr>id_task = ''T4'', duration = 1, predecessor_delay = 0,
                   assignments = (), constraints = ()\<rparr>"

definition example_T5 :: "(unit, unit) task" where
  "example_T5 = \<lparr>id_task = ''T5'', duration = 1, predecessor_delay = 0,
                   assignments = (), constraints = ()\<rparr>"

definition example_dict :: "(string \<times> (unit, unit) task) list" where
  "example_dict =
     [(''T'', example_T), (''T2'', example_T2), (''T3'', example_T3), (''T4'', example_T4),
      (''T5'', example_T5)]"

definition example_resources :: "resource list" where
  "example_resources = [example_resource, example_idle]"

definition example_predecessor_ids :: "string \<Rightarrow> string list" where
  "example_predecessor_ids k =
     (if k = ''T2'' then [''T''] else if k = ''T5'' then [''T2''] else [])"

definition example_env :: "(unit, unit) collaborators" where
  "example_env =
     \<lparr>get_task_predecessors =
        (\<lambda>t d. concat (map (\<lambda>k. case map_of d k of None \<Rightarrow> [] | Some p \<Rightarrow> [p])
                          (example_predecessor_ids (id_task t)))),
      get_unique_resources =
        (\<lambda>t. if id_task t = ''T4'' then [example_idle] else [example_resource]),
      allocate_task = first_fit\<rparr>"

text \<open>The state of the solver after \<open>T\<close> has been scheduled.\<close>

definition example_after_T :: solver where
  "example_after_T =
     \<lparr>window_manager = [(1, [(3, 4), (5, 10)]), (2, [])],
      task_vars =
        [(''T'', \<lparr>task_id = ''T'', assigned_resource_ids = Some [1], task_start = Some 0,
                  task_end = Some 3, resource_intervals = Some [(0, 3)],
                  error_message = Missing\<rparr>),
         (''T2'', initial_values ''T2''), (''T3'', initial_values ''T3''),
         (''T4'', initial_values ''T4''), (''T5'', initial_values ''T5'')]\<rparr>"

text \<open>The record of \<open>T\<close> once it is scheduled.\<close>

definition example_T_scheduled :: task_values where
  "example_T_scheduled =
     \<lparr>task_id = ''T'', assigned_resource_ids = Some [1], task_start = Some 0,
      task_end = Some 3, resource_intervals = Some [(0, 3)], error_message = Missing\<rparr>"

text \<open>
  What a record has set: a complete allocation (all four fields), an error message.
\<close>

definition allocation_set :: "task_values \<Rightarrow> bool" where
  "allocation_set r =
     (assigned_resource_ids r \<noteq> None \<and> task_start r \<noteq> None \<and> task_end r \<noteq> None
      \<and> resource_intervals r \<noteq> None)"

definition allocation_unset :: "task_values \<Rightarrow> bool" where
  "allocation_unset r =
     (assigned_resource_ids r = None \<and> task_start r = None \<and> task_end r = None
      \<and> resource_intervals r = None)"

definition error_set :: "task_values \<Rightarrow> bool" where
  "error_set r = (case error_message r of Entry (Some m) \<Rightarrow> True | _ \<Rightarrow> False)"

text \<open>
  A task with a recorded end has predecessors that all have a recorded end: the tasks
  are scheduled only after their predecessors.
\<close>

definition ends_closed ::
    "('a, 'c) collaborators \<Rightarrow> (string \<times> ('a, 'c) task) list \<Rightarrow> task_vars \<Rightarrow> bool" where
  "ends_closed env td tv =
     (\<forall>k task. map_of td k = Some task \<longrightarrow> recorded_end tv k \<noteq> None \<longrightarrow>
        (\<forall>p \<in> set (get_task_predecessors env task td). recorded_end tv (id_task p) \<noteq> None))"

text \<open>
  The state of the solver when \<open>T2\<close> is processed first and is blocked, and the state
  after \<open>T\<close> is then scheduled.
\<close>

definition example_T2_blocked :: solver where
  "example_T2_blocked =
     \<lparr>window_manager = [(1, [(0, 4), (5, 10)]), (2, [])],
      task_vars =
        [(''T'', initial_values ''T''),
         (''T2'', (initial_values ''T2'')
                    \<lparr>error_message := Entry (Some ''Task has unscheduled predecessors'')\<rparr>),
         (''T3'', initial_values ''T3''), (''T4'', initial_values ''T4''),
         (''T5'', initial_values ''T5'')]\<rparr>"

definition example_T2_blocked_T :: solver where
  "example_T2_blocked_T =
     \<lparr>window_manager = [(1, [(3, 4), (5, 10)]), (2, [])],
      task_vars =
        [(''T'', example_T_scheduled),
         (''T2'', (initial_values ''T2'')
                    \<lparr>error_message := Entry (Some ''Task has unscheduled predecessors'')\<rparr>),
         (''T3'', initial_values ''T3''), (''T4'', initial_values ''T4''),
         (''T5'', initial_values ''T5'')]\<rparr>"

text \<open>
  The availability of a resource as the spec describes it: windows sorted by start,
  none overlapping another, each with its start before its end.
\<close>

definition sorted_windows :: "window list \<Rightarrow> bool" where
  "sorted_windows ws =
     (sorted_wrt (\<lambda>w w'. snd w \<le> fst w') ws \<and> (\<forall>w \<in> set ws. fst w < snd w))"

text \<open>
  A merged calendar: every window ends strictly before each later window starts, so
  that no two windows overlap or touch, and no window is empty.
\<close>

definition separated :: "window list \<Rightarrow> bool" where
  "separated ws =
     (sorted_wrt (\<lambda>w w'. snd w < fst w') ws \<and> (\<forall>w \<in> set ws. fst w < snd w))"

text \<open>
  The allocation that the loop body commits for a task id in a state (none when the
  task ends in an error message), and the allocations committed during a run, in
  the order of the commits.
\<close>

definition committed_by ::
    "('a, 'c) collaborators \<Rightarrow> (string \<times> ('a, 'c) task) list \<Rightarrow> solver \<Rightarrow> string \<Rightarrow>
     allocation" where
  "committed_by env td st tid =
     (case map_of td tid of
        None \<Rightarrow> []
      | Some task \<Rightarrow>
          (case attempt_task env td st task of
             Inl x \<Rightarrow> []
           | Inr (Unscheduled message) \<Rightarrow> []
           | Inr (Allocated a) \<Rightarrow> a))"

fun committed ::
    "('a, 'c) collaborators \<Rightarrow> (string \<times> ('a, 'c) task) list \<Rightarrow> string list \<Rightarrow> solver \<Rightarrow>
     allocation" where
  "committed env td [] st = []"
| "committed env td (tid # task_order) st =
     (case process_task env td st tid of
        Inl x \<Rightarrow> []
      | Inr st' \<Rightarrow> committed_by env td st tid @ committed env td task_order st')"

text \<open>The points of time committed on a resource by a list of allocated intervals.\<close>

definition committed_spans :: "int \<Rightarrow> allocation \<Rightarrow> int set" where
  "committed_spans rid a = (\<Union>(r, iv) \<in> set a. if r = rid then span iv else {})"

text \<open>No two of the committed intervals of one resource share a point of time.\<close>

definition no_double_booking :: "allocation \<Rightarrow> bool" where
  "no_double_booking a =
     sorted_wrt (\<lambda>(r, iv) (r', iv'). r = r' \<longrightarrow> span iv \<inter> span iv' = {}) a"

text \<open>The order that names every task once, and the state at the end of that run.\<close>

definition example_order :: "string list" where
  "example_order = [''T'', ''T2'', ''T3'', ''T4'', ''T5'']"

definition example_final :: solver where
  "example_final =
     \<lparr>window_manager = [(1, [(3, 4), (8, 10)]), (2, [])],
      task_vars =
        [(''T'', example_T_scheduled),
         (''T2'', \<lparr>task_id = ''T2'', assigned_resource_ids = Some [1], task_start = Some 5,
                   task_end = Some 7, resource_intervals = Some [(5, 7)],
                   error_message = Missing\<rparr>),
         (''T3'', (initial_values ''T3'')
                    \<lparr>error_message := Entry (Some ''insufficient availability'')\<rparr>),
         (''T4'', (initial_values ''T4'')
                    \<lparr>error_message := Entry (Some ''No available resources'')\<rparr>),
         (''T5'', \<lparr>task_id = ''T5'', assigned_resource_ids = Some [1], task_start = Some 7,
                   task_end = Some 8, resource_intervals = Some [(7, 8)],
                   error_message = Missing\<rparr>)]\<rparr>"

text \<open>
  A second resource with the window \<open>[0, 5)\<close>, and collaborators that give \<open>T\<close> both
  resources at once: resource 1 from 1 to 3 and resource 3 from 0 to 2.
\<close>

definition example_wide :: resource where
  "example_wide = \<lparr>resource_id = 3, available_windows = [(0, 5)]\<rparr>"

definition example_pair_env :: "(unit, unit) collaborators" where
  "example_pair_env =
     example_env\<lparr>get_unique_resources := \<lambda>t. [example_resource, example_wide],
                  allocate_task := \<lambda>d a n c. Inr [(1, (1, 3)), (3, (0, 2))]\<rparr>"

definition example_pair_scheduled :: solver where
  "example_pair_scheduled =
     \<lparr>window_manager = [(1, [(0, 1), (3, 4), (5, 10)]), (3, [(2, 5)])],
      task_vars =
        [(''T'', \<lparr>task_id = ''T'', assigned_resource_ids = Some [1, 3], task_start = Some 0,
                  task_end = Some 3, resource_intervals = Some [(1, 3), (0, 2)],
                  error_message = Missing\<rparr>),
         (''T2'', initial_values ''T2''), (''T3'', initial_values ''T3''),
         (''T4'', initial_values ''T4''), (''T5'', initial_values ''T5'')]\<rparr>"

section \<open>Identity of resources, groups and tasks\<close>

text \<open>
  C9. Two values of \<^verbatim>\<open>Resource\<close>, of \<^verbatim>\<open>ResourceGroup\<close> or of \<^verbatim>\<open>Task\<close> compare equal
  exactly when their ids are equal, whatever their availability slots, members,
  duration, priority and predecessors are, and equal ids give equal hash values.
\<close>

theorem identity_by_id:
  "Resource_eq (Resource i sl) (ResourceObj (Resource i' sl')) = Some (i = i')
   \<and> ResourceGroup_eq (ResourceGroup g ms) (ResourceGroupObj (ResourceGroup g' ms'))
       = Some (g = g')
   \<and> Task_eq (Task t d p rg ps) (TaskObj (Task t' d' p' rg' ps')) = Some (t = t')
   \<and> (i = i' \<longrightarrow> Resource_hash (Resource i sl) = Resource_hash (Resource i' sl'))
   \<and> (g = g' \<longrightarrow>
        ResourceGroup_hash (ResourceGroup g ms) = ResourceGroup_hash (ResourceGroup g' ms'))
   \<and> (t = t' \<longrightarrow> Task_hash (Task t d p rg ps) = Task_hash (Task t' d' p' rg' ps'))"
  by (simp add: Resource_eq_def ResourceGroup_eq_def Task_eq_def Resource_hash_def
      ResourceGroup_hash_def Task_hash_def)

theorem identity_by_id_witness:
  "Resource_eq (Resource 1 []) (ResourceObj (Resource 1 [\<lparr>slot_id = 0, slot_start = 0, slot_end = 4\<rparr>]))
     = Some True
   \<and> Resource_eq (Resource 1 []) (ResourceObj (Resource 2 [])) = Some False
   \<and> Task_eq (Task 7 3 1 (ResourceGroup 1 []) None)
       (TaskObj (Task 7 9 2 (ResourceGroup 2 [Resource 1 []]) (Some []))) = Some True
   \<and> Resource_hash (Resource 1 [])
       = Resource_hash (Resource 1 [\<lparr>slot_id = 0, slot_start = 0, slot_end = 4\<rparr>])"
  using identity_by_id [of 1 "[]" 1 "[\<lparr>slot_id = 0, slot_start = 0, slot_end = 4\<rparr>]"
      1 "[]" 2 "[Resource 1 []]" 7 3 1 "ResourceGroup 1 []" None 7 9 2
      "ResourceGroup 2 [Resource 1 []]" "Some []"]
    identity_by_id [of 1 "[]" 2 "[]" 1 "[]" 1 "[]" 7 3 1 "ResourceGroup 1 []" None 7 3 1
      "ResourceGroup 1 []" None]
  by simp

section \<open>The solver\<close>

subsection \<open>Auxiliary facts\<close>

lemmas example_defs = example_resource_def example_idle_def example_T_def example_T2_def
  example_T3_def example_T4_def example_T5_def example_dict_def example_resources_def
  example_predecessor_ids_def example_env_def first_fit_def

lemmas solver_defs = solve_def HeuristicSolver_def WindowManager_def initial_values_def
  process_task_def attempt_task_def allocate_from_def get_task_earliest_start_def
  max_default_def py_min_def py_max_def scheduled_values_def update_error_message_def
  get_task_resource_windows_dict_def calendar_def recorded_end_def

lemma task_ends_loop_recorded:
  "\<forall>p \<in> set preds. recorded_end tv (id_task p) = Some (e p) \<Longrightarrow>
   task_ends_loop tv d preds acc = Inr (Some (acc @ map (\<lambda>p. e p + d) preds))"
  by (induction preds arbitrary: acc)
     (auto simp: recorded_end_def split: option.splits)

lemma fold_max_Max: "fold max ys y = Max (set (y # ys))"
  by (simp only: Max.set_eq_fold)

lemma fold_min_Min: "fold min ys y = Min (set (y # ys))"
  by (simp only: Min.set_eq_fold)

lemma max_default_Max:
  "max_default xs d = (if xs = [] then d else Max (set xs))"
  by (cases xs) (simp_all add: max_default_def fold_max_Max)

subsection \<open>The table keeps its keys\<close>

lemma update_present_keys:
  "map_of al k = Some v \<Longrightarrow> map fst (AList.update k v' al) = map fst al"
  by (induction al) (auto split: if_splits)

lemma set_update_subset:
  "(k', v') \<in> set (AList.update k v al) \<Longrightarrow> (k', v') = (k, v) \<or> (k', v') \<in> set al"
  by (induction al) (auto split: if_splits)

lemma labelled_update:
  "labelled tv \<Longrightarrow> task_id vals = k \<Longrightarrow> labelled (AList.update k vals tv)"
  unfolding labelled_def by (auto dest: set_update_subset)

lemma labelled_map_of:
  "labelled tv \<Longrightarrow> map_of tv k = Some vals \<Longrightarrow> task_id vals = k"
  unfolding labelled_def by (auto dest: map_of_SomeD)

lemma scheduled_values_id:
  "scheduled_values tid a = Inr vals \<Longrightarrow> task_id vals = tid"
  by (auto simp: scheduled_values_def split: sum.splits)

lemma update_error_message_Inr:
  "update_error_message st tid m = Inr st' \<Longrightarrow>
   \<exists>vals. map_of (task_vars st) tid = Some vals \<and>
     st' = st\<lparr>task_vars :=
              AList.update tid (vals\<lparr>error_message := Entry (Some m)\<rparr>) (task_vars st)\<rparr>"
  by (simp add: update_error_message_def split: option.splits)

lemma update_error_message_table:
  assumes "update_error_message st tid m = Inr st'"
  shows "map fst (task_vars st') = map fst (task_vars st)"
    and "labelled (task_vars st) \<Longrightarrow> labelled (task_vars st')"
    and "window_manager st' = window_manager st"
proof -
  from update_error_message_Inr [OF assms] obtain vals
    where v: "map_of (task_vars st) tid = Some vals"
      and s: "st' = st\<lparr>task_vars :=
              AList.update tid (vals\<lparr>error_message := Entry (Some m)\<rparr>) (task_vars st)\<rparr>"
    by blast
  show "map fst (task_vars st') = map fst (task_vars st)"
    using v s by (simp add: update_present_keys)
  show "window_manager st' = window_manager st"
    using s by simp
  assume l: "labelled (task_vars st)"
  have "task_id (vals\<lparr>error_message := Entry (Some m)\<rparr>) = tid"
    using labelled_map_of [OF l v] by simp
  from labelled_update [OF l this] show "labelled (task_vars st')"
    using s by simp
qed

lemma map_of_keys_Some:
  assumes "map fst al = map fst bl" and "map_of bl k = Some v"
  shows "\<exists>w. map_of al k = Some w"
proof -
  from assms(2) have "k \<in> fst ` set bl"
    by (metis map_of_eq_None_iff option.distinct(1))
  then have "k \<in> fst ` set al"
    using assms(1) by (metis list.set_map)
  then show ?thesis
    by (metis map_of_eq_None_iff not_Some_eq)
qed

lemma process_task_cases:
  assumes "process_task env td st tid = Inr st'"
  shows "\<exists>task. map_of td tid = Some task \<and>
           ((\<exists>m. attempt_task env td st task = Inr (Unscheduled m) \<and>
                 update_error_message st tid m = Inr st') \<or>
            (\<exists>a wm vals. attempt_task env td st task = Inr (Allocated a) \<and>
                 update_resource_windows (window_manager st) a = Inr wm \<and>
                 scheduled_values tid a = Inr vals \<and>
                 st' = \<lparr>window_manager = wm,
                        task_vars = AList.update tid vals (task_vars st)\<rparr>))"
  using assms unfolding process_task_def
  by (simp split: option.splits sum.splits outcome.splits)

lemma process_task_table:
  assumes "process_task env td st tid = Inr st'"
    and "map fst (task_vars st) = map fst td"
  shows "map fst (task_vars st') = map fst td"
    and "labelled (task_vars st) \<Longrightarrow> labelled (task_vars st')"
proof -
  from process_task_cases [OF assms(1)] obtain task where task: "map_of td tid = Some task"
    and cases: "(\<exists>m. attempt_task env td st task = Inr (Unscheduled m) \<and>
                 update_error_message st tid m = Inr st') \<or>
            (\<exists>a wm vals. attempt_task env td st task = Inr (Allocated a) \<and>
                 update_resource_windows (window_manager st) a = Inr wm \<and>
                 scheduled_values tid a = Inr vals \<and>
                 st' = \<lparr>window_manager = wm,
                        task_vars = AList.update tid vals (task_vars st)\<rparr>)"
    by blast
  from map_of_keys_Some [OF assms(2) task] obtain w
    where w: "map_of (task_vars st) tid = Some w" by blast
  from cases show "map fst (task_vars st') = map fst td"
  proof (elim disjE exE conjE)
    fix m assume "update_error_message st tid m = Inr st'"
    from update_error_message_table(1) [OF this] show ?thesis
      using assms(2) by simp
  next
    fix a wm vals
    assume "st' = \<lparr>window_manager = wm,
                        task_vars = AList.update tid vals (task_vars st)\<rparr>"
    then show ?thesis using update_present_keys [OF w] assms(2) by simp
  qed
  assume l: "labelled (task_vars st)"
  from cases show "labelled (task_vars st')"
  proof (elim disjE exE conjE)
    fix m assume "update_error_message st tid m = Inr st'"
    from update_error_message_table(2) [OF this l] show ?thesis .
  next
    fix a wm vals
    assume v: "scheduled_values tid a = Inr vals"
      and s: "st' = \<lparr>window_manager = wm,
                        task_vars = AList.update tid vals (task_vars st)\<rparr>"
    from labelled_update [OF l scheduled_values_id [OF v]] show ?thesis
      using s by simp
  qed
qed

lemma solve_loop_table:
  "solve_loop env td order st = Inr st' \<Longrightarrow> map fst (task_vars st) = map fst td \<Longrightarrow>
   labelled (task_vars st) \<Longrightarrow>
   map fst (task_vars st') = map fst td \<and> labelled (task_vars st')"
proof (induction order arbitrary: st)
  case Nil
  then show ?case by simp
next
  case (Cons tid order)
  from Cons.prems(1) obtain st1 where p: "process_task env td st tid = Inr st1"
    and r: "solve_loop env td order st1 = Inr st'"
    by (simp split: sum.splits)
  from process_task_table [OF p Cons.prems(2)] Cons.prems(3)
  have "map fst (task_vars st1) = map fst td" and "labelled (task_vars st1)" by simp_all
  with Cons.IH [OF r] show ?case by simp
qed

lemma HeuristicSolver_table:
  "map fst (task_vars (HeuristicSolver td rs)) = map fst td"
  "labelled (task_vars (HeuristicSolver td rs))"
proof -
  have tv: "task_vars (HeuristicSolver td rs) = map (\<lambda>k. (k, initial_values k)) (map fst td)"
    by (simp add: HeuristicSolver_def)
  show "map fst (task_vars (HeuristicSolver td rs)) = map fst td"
    unfolding tv by (induction td) simp_all
  show "labelled (task_vars (HeuristicSolver td rs))"
    unfolding tv labelled_def by (induction td) (simp_all add: initial_values_def)
qed

lemma run_table:
  assumes "solve_loop env td pre (HeuristicSolver td rs) = Inr st"
  shows "map fst (task_vars st) = map fst td" and "labelled (task_vars st)"
  using solve_loop_table [OF assms HeuristicSolver_table] by simp_all

lemma run_has_record:
  assumes "solve_loop env td pre (HeuristicSolver td rs) = Inr st"
    and "map_of td tid = Some task"
  shows "\<exists>vals. map_of (task_vars st) tid = Some vals"
  by (rule map_of_keys_Some [OF run_table(1) [OF assms(1)] assms(2)])


subsection \<open>Concrete runs\<close>

lemma example_run_T:
  "solve_loop example_env example_dict [''T''] (HeuristicSolver example_dict example_resources)
     = Inr example_after_T"
  by (simp add: example_defs solver_defs example_after_T_def)

lemma example_solve_reversed:
  "solve example_env example_dict example_resources [''T5'', ''T4'', ''T3'', ''T2'', ''T''] =
     Inr [\<lparr>task_id = ''T'', assigned_resource_ids = Some [1], task_start = Some 0,
            task_end = Some 3, resource_intervals = Some [(0, 3)], error_message = Missing\<rparr>,
          \<lparr>task_id = ''T2'', assigned_resource_ids = None, task_start = None,
            task_end = None, resource_intervals = None,
            error_message = Entry (Some ''Task has unscheduled predecessors'')\<rparr>,
          \<lparr>task_id = ''T3'', assigned_resource_ids = None, task_start = None,
            task_end = None, resource_intervals = None,
            error_message = Entry (Some ''insufficient availability'')\<rparr>,
          \<lparr>task_id = ''T4'', assigned_resource_ids = None, task_start = None,
            task_end = None, resource_intervals = None,
            error_message = Entry (Some ''No available resources'')\<rparr>,
          \<lparr>task_id = ''T5'', assigned_resource_ids = None, task_start = None,
            task_end = None, resource_intervals = None,
            error_message = Entry (Some ''Task has unscheduled predecessors'')\<rparr>]"
  by (simp add: example_defs solver_defs)

subsection \<open>Earliest start\<close>

text \<open>
  C2. When every predecessor of a task has a recorded end, the earliest start that
  \<^verbatim>\<open>_get_task_earliest_start\<close> returns, and that the loop body hands to the window
  query, is the greatest of the predecessors' ends, each plus the task's own
  \<^verbatim>\<open>predecessor_delay\<close>, and 0 when there is no predecessor. Here \<open>e p\<close> is the end
  recorded for the predecessor \<open>p\<close>.
\<close>

theorem earliest_start_is_latest_end:
  assumes "\<forall>p \<in> set (get_task_predecessors env task td).
             recorded_end (task_vars st) (id_task p) = Some (e p)"
  shows "get_task_earliest_start env (task_vars st) task td =
           Inr (Some (if get_task_predecessors env task td = [] then 0
                      else Max ((\<lambda>p. e p + predecessor_delay task) `
                                set (get_task_predecessors env task td))))
         \<and> attempt_task env td st task =
             allocate_from env st task
               (if get_task_predecessors env task td = [] then 0
                else Max ((\<lambda>p. e p + predecessor_delay task) `
                          set (get_task_predecessors env task td)))"
  using task_ends_loop_recorded [OF assms, of "predecessor_delay task" "[]"]
  by (simp add: get_task_earliest_start_def attempt_task_def max_default_Max)

text \<open>
  The scenario of the spec: \<open>T2\<close> follows \<open>T\<close> with a delay of 2, \<open>T\<close> ends at 3, and
  the earliest start of \<open>T2\<close> is 5; \<open>T\<close> has no predecessor and starts at 0 at the
  earliest.
\<close>

theorem earliest_start_is_latest_end_witness:
  "get_task_predecessors example_env example_T2 example_dict = [example_T]
   \<and> recorded_end (task_vars example_after_T) (id_task example_T) = Some 3
   \<and> predecessor_delay example_T2 = 2
   \<and> get_task_earliest_start example_env (task_vars example_after_T) example_T2 example_dict
       = Inr (Some 5)
   \<and> get_task_earliest_start example_env (task_vars example_after_T) example_T example_dict
       = Inr (Some 0)"
  using earliest_start_is_latest_end [of example_env example_T2 example_dict example_after_T
      "\<lambda>p. 3"]
    earliest_start_is_latest_end [of example_env example_T example_dict example_after_T
      "\<lambda>p. 3"]
  by (simp add: example_defs example_after_T_def recorded_end_def)

subsection \<open>The result list\<close>

text \<open>
  C7. Whenever \<^verbatim>\<open>solve\<close> returns, the list it returns has one record for each key of the
  task dictionary, in the order of the keys, whatever the task order is and whichever
  tasks fail.
\<close>

theorem solve_one_record_per_task:
  "solve env td rs task_order = Inr results \<Longrightarrow> map task_id results = map fst td"
proof -
  assume "solve env td rs task_order = Inr results"
  then obtain st where st: "solve_loop env td task_order (HeuristicSolver td rs) = Inr st"
    and res: "results = map snd (task_vars st)"
    by (auto simp: solve_def split: sum.splits)
  have "map task_id (map snd (task_vars st)) = map fst (task_vars st)"
    using run_table(2) [OF st] by (auto simp: labelled_def)
  with run_table(1) [OF st] res show ?thesis by simp
qed

text \<open>
  The tasks in the reverse of the dictionary's order: four of them fail, and the
  records still come in the order of the keys.
\<close>

theorem solve_one_record_per_task_witness:
  "(case solve example_env example_dict example_resources [''T5'', ''T4'', ''T3'', ''T2'', ''T''] of
      Inl x \<Rightarrow> False
    | Inr results \<Rightarrow> map task_id results = [''T'', ''T2'', ''T3'', ''T4'', ''T5''])"
  using solve_one_record_per_task [OF example_solve_reversed] example_solve_reversed
  by (simp add: example_dict_def)

subsection \<open>The branches that end in an error message\<close>

lemma process_task_unscheduled:
  assumes "map_of td tid = Some task"
    and "attempt_task env td st task = Inr (Unscheduled m)"
    and "map_of (task_vars st) tid = Some vals"
  shows "process_task env td st tid =
           Inr (st\<lparr>task_vars :=
                  AList.update tid (vals\<lparr>error_message := Entry (Some m)\<rparr>) (task_vars st)\<rparr>)"
  using assms by (simp add: process_task_def update_error_message_def)

lemma map_of_update_same: "map_of (AList.update k v al) k = Some v"
  by (simp add: update_conv)

lemma map_of_update_other: "k' \<noteq> k \<Longrightarrow> map_of (AList.update k v al) k' = map_of al k'"
  by (simp add: update_conv)

text \<open>
  C3. When the allocator raises \<^verbatim>\<open>AllocationError\<close> for a task, the solver records the
  message of the error as the task's \<^verbatim>\<open>error_message\<close>, leaves every calendar as it
  was, and goes on with the next task of the order. The state \<open>st\<close> is any state a
  run reaches.
\<close>

theorem allocation_error_recorded:
  assumes run: "solve_loop env td processed (HeuristicSolver td rs) = Inr st"
    and task: "map_of td tid = Some task"
    and start: "get_task_earliest_start env (task_vars st) task td = Inr (Some est)"
    and query: "get_task_resource_windows_dict (window_manager st)
                  (map resource_id (get_unique_resources env task)) est = d"
    and nonempty: "d \<noteq> []"
    and raised: "allocate_task env d (assignments task) (duration task) (constraints task)
                  = Inl (AllocationError m)"
  shows "\<exists>st' vals. process_task env td st tid = Inr st'
           \<and> window_manager st' = window_manager st
           \<and> map_of (task_vars st') tid = Some vals
           \<and> error_message vals = Entry (Some m)
           \<and> (\<forall>rest. solve_loop env td (tid # rest) st = solve_loop env td rest st')"
proof -
  have att: "attempt_task env td st task = Inr (Unscheduled m)"
    using start query nonempty raised by (simp add: attempt_task_def allocate_from_def)
  from run_has_record [OF run task] obtain vals
    where vals: "map_of (task_vars st) tid = Some vals" by blast
  let ?st = "st\<lparr>task_vars :=
               AList.update tid (vals\<lparr>error_message := Entry (Some m)\<rparr>) (task_vars st)\<rparr>"
  have p: "process_task env td st tid = Inr ?st"
    by (rule process_task_unscheduled [OF task att vals])
  have "window_manager ?st = window_manager st" by simp
  moreover have "map_of (task_vars ?st) tid = Some (vals\<lparr>error_message := Entry (Some m)\<rparr>)"
    by (simp add: map_of_update_same)
  moreover have "error_message (vals\<lparr>error_message := Entry (Some m)\<rparr>) = Entry (Some m)"
    by simp
  moreover have "\<forall>rest. solve_loop env td (tid # rest) st = solve_loop env td rest ?st"
    using p by simp
  ultimately show ?thesis using p by blast
qed

text \<open>
  After \<open>T\<close> is scheduled, \<open>T3\<close> needs 20 units and no window has them: the allocator
  raises, the message is recorded, the calendars stay, and the loop goes on with \<open>T4\<close>.
\<close>

theorem allocation_error_recorded_witness:
  "allocate_task example_env [(1, [(3, 4), (5, 10)])] () 20 ()
     = Inl (AllocationError ''insufficient availability'')
   \<and> (case process_task example_env example_dict example_after_T ''T3'' of
         Inl x \<Rightarrow> False
       | Inr st' \<Rightarrow>
           window_manager st' = window_manager example_after_T
           \<and> map_option error_message (map_of (task_vars st') ''T3'')
               = Some (Entry (Some ''insufficient availability''))
           \<and> solve_loop example_env example_dict [''T3'', ''T4''] example_after_T
               = solve_loop example_env example_dict [''T4''] st')"
proof -
  have task: "map_of example_dict ''T3'' = Some example_T3"
    by (simp add: example_defs)
  have start: "get_task_earliest_start example_env (task_vars example_after_T) example_T3
                 example_dict = Inr (Some 0)"
    by (simp add: example_defs solver_defs example_after_T_def)
  have query: "get_task_resource_windows_dict (window_manager example_after_T)
                 (map resource_id (get_unique_resources example_env example_T3)) 0
               = [(1, [(3, 4), (5, 10)])]"
    by (simp add: example_defs solver_defs example_after_T_def)
  have nonempty: "[(1::int, [(3::int, 4::int), (5, 10)])] \<noteq> []" by simp
  have raised: "allocate_task example_env [(1, [(3, 4), (5, 10)])] (assignments example_T3)
                  (duration example_T3) (constraints example_T3)
                = Inl (AllocationError ''insufficient availability'')"
    by (simp add: example_defs)
  from allocation_error_recorded [OF example_run_T task start query nonempty raised]
  show ?thesis using raised
    by (auto simp: example_T3_def)
qed

text \<open>
  C5. When the window manager returns the empty dictionary for a task, the solver
  records \<open>No available resources\<close> for it, whatever the allocator is (so the
  allocator is not consulted), leaves the calendars as they were and goes on with the
  next task of the order.
\<close>

theorem no_resources_recorded:
  assumes run: "solve_loop env td processed (HeuristicSolver td rs) = Inr st"
    and task: "map_of td tid = Some task"
    and start: "get_task_earliest_start env (task_vars st) task td = Inr (Some est)"
    and empty: "get_task_resource_windows_dict (window_manager st)
                  (map resource_id (get_unique_resources env task)) est = []"
  shows "\<exists>st' vals. (\<forall>alloc. process_task (env\<lparr>allocate_task := alloc\<rparr>) td st tid = Inr st')
           \<and> process_task env td st tid = Inr st'
           \<and> window_manager st' = window_manager st
           \<and> map_of (task_vars st') tid = Some vals
           \<and> error_message vals = Entry (Some ''No available resources'')
           \<and> (\<forall>rest. solve_loop env td (tid # rest) st = solve_loop env td rest st')"
proof -
  have att: "attempt_task (env\<lparr>allocate_task := alloc\<rparr>) td st task
               = Inr (Unscheduled ''No available resources'')" for alloc
    using start empty
    by (simp add: attempt_task_def allocate_from_def get_task_earliest_start_def)
  from run_has_record [OF run task] obtain vals
    where vals: "map_of (task_vars st) tid = Some vals" by blast
  let ?st = "st\<lparr>task_vars :=
               AList.update tid (vals\<lparr>error_message := Entry (Some ''No available resources'')\<rparr>)
                 (task_vars st)\<rparr>"
  have p: "process_task (env\<lparr>allocate_task := alloc\<rparr>) td st tid = Inr ?st" for alloc
    by (rule process_task_unscheduled [OF task att vals])
  from p [of "allocate_task env"] have p': "process_task env td st tid = Inr ?st" by simp
  have "window_manager ?st = window_manager st" by simp
  moreover have "map_of (task_vars ?st) tid
      = Some (vals\<lparr>error_message := Entry (Some ''No available resources'')\<rparr>)"
    by (simp add: map_of_update_same)
  moreover have "error_message (vals\<lparr>error_message := Entry (Some ''No available resources'')\<rparr>)
      = Entry (Some ''No available resources'')"
    by simp
  moreover have "\<forall>rest. solve_loop env td (tid # rest) st = solve_loop env td rest ?st"
    using p' by simp
  ultimately show ?thesis using p p' by blast
qed

text \<open>
  The scenario of the spec: the resource of \<open>T4\<close> has no window at all. The outcome is
  the same with an allocator that would raise an error the solver does not catch.
\<close>

theorem no_resources_recorded_witness:
  "calendar (window_manager example_after_T) 2 = []
   \<and> (case process_task (example_env\<lparr>allocate_task := \<lambda>d a n c. Inl (OtherException ''called'')\<rparr>)
              example_dict example_after_T ''T4'' of
         Inl x \<Rightarrow> False
       | Inr st' \<Rightarrow>
           process_task example_env example_dict example_after_T ''T4'' = Inr st'
           \<and> window_manager st' = window_manager example_after_T
           \<and> map_option error_message (map_of (task_vars st') ''T4'')
               = Some (Entry (Some ''No available resources'')))"
proof -
  have task: "map_of example_dict ''T4'' = Some example_T4"
    by (simp add: example_defs)
  have start: "get_task_earliest_start example_env (task_vars example_after_T) example_T4
                 example_dict = Inr (Some 0)"
    by (simp add: example_defs solver_defs example_after_T_def)
  have empty: "get_task_resource_windows_dict (window_manager example_after_T)
                 (map resource_id (get_unique_resources example_env example_T4)) 0 = []"
    by (simp add: example_defs solver_defs example_after_T_def)
  have cal: "calendar (window_manager example_after_T) 2 = []"
    by (simp add: calendar_def example_after_T_def)
  from no_resources_recorded [OF example_run_T task start empty]
  show ?thesis using cal by auto
qed

subsection \<open>The record of a scheduled task\<close>

lemma remove_span_ordered: "remove_span ws (s, e) = Some ws' \<Longrightarrow> s \<le> e"
  by (induction ws arbitrary: ws') (auto split: if_splits)

lemma update_resource_windows_ordered:
  "update_resource_windows wm a = Inr wm' \<Longrightarrow> (rid, iv) \<in> set a \<Longrightarrow> fst iv \<le> snd iv"
proof (induction a arbitrary: wm)
  case Nil
  then show ?case by simp
next
  case (Cons x a)
  obtain r s e where x: "x = (r, (s, e))" by (cases x) auto
  from Cons.prems(1) x obtain ws where ws: "remove_span (calendar wm r) (s, e) = Some ws"
    and rest: "update_resource_windows (AList.update r (normalise ws) wm) a = Inr wm'"
    by (auto split: option.splits)
  show ?case
  proof (cases "(rid, iv) = x")
    case True
    then show ?thesis using remove_span_ordered [OF ws] x by auto
  next
    case False
    then have "(rid, iv) \<in> set a" using Cons.prems(2) by simp
    from Cons.IH [OF rest this] show ?thesis .
  qed
qed

lemma scheduled_values_Inr:
  assumes "scheduled_values tid a = Inr vals"
  shows "a \<noteq> []"
    and "vals = \<lparr>task_id = tid, assigned_resource_ids = Some (map fst a),
                 task_start = Some (Min (fst ` snd ` set a)),
                 task_end = Some (Max (snd ` snd ` set a)),
                 resource_intervals = Some (map snd a), error_message = Missing\<rparr>"
proof -
  show ne: "a \<noteq> []"
    using assms by (auto simp: scheduled_values_def py_min_def)
  then obtain x xs where a: "a = x # xs" by (cases a) auto
  have lo: "py_min (map (\<lambda>(rid, iv). fst iv) a) = Inr (Min (fst ` snd ` set a))"
    unfolding a py_min_def
    by (simp add: fold_min_Min image_image case_prod_unfold)
  have hi: "py_max (map (\<lambda>(rid, iv). snd iv) a) = Inr (Max (snd ` snd ` set a))"
    unfolding a py_max_def
    by (simp add: fold_max_Max image_image case_prod_unfold)
  show "vals = \<lparr>task_id = tid, assigned_resource_ids = Some (map fst a),
                 task_start = Some (Min (fst ` snd ` set a)),
                 task_end = Some (Max (snd ` snd ` set a)),
                 resource_intervals = Some (map snd a), error_message = Missing\<rparr>"
    using assms unfolding scheduled_values_def lo hi by simp
qed

text \<open>
  C6. For a task that reaches scheduled (the allocator returned \<open>a\<close> and the loop body
  completed), the recorded \<^verbatim>\<open>task_start\<close> is the least start and the recorded
  \<^verbatim>\<open>task_end\<close> the greatest end over the intervals of \<open>a\<close>, the recorded resource ids
  are the keys of \<open>a\<close>, and the start is not after the end.
\<close>

theorem scheduled_values_recorded:
  assumes task: "map_of td tid = Some task"
    and allocated: "attempt_task env td st task = Inr (Allocated a)"
    and completed: "process_task env td st tid = Inr st'"
  shows "a \<noteq> []
         \<and> map_of (task_vars st') tid =
             Some \<lparr>task_id = tid, assigned_resource_ids = Some (map fst a),
                   task_start = Some (Min (fst ` snd ` set a)),
                   task_end = Some (Max (snd ` snd ` set a)),
                   resource_intervals = Some (map snd a), error_message = Missing\<rparr>
         \<and> Min (fst ` snd ` set a) \<le> Max (snd ` snd ` set a)"
proof -
  from completed task allocated obtain wm vals
    where commit: "update_resource_windows (window_manager st) a = Inr wm"
      and vals: "scheduled_values tid a = Inr vals"
      and st': "st' = \<lparr>window_manager = wm, task_vars = AList.update tid vals (task_vars st)\<rparr>"
    by (auto simp: process_task_def split: sum.splits)
  note sv = scheduled_values_Inr [OF vals]
  from sv(1) obtain r iv where mem: "(r, iv) \<in> set a" by (cases a) auto
  have "Min (fst ` snd ` set a) \<le> fst iv"
    using mem by (intro Min_le) (auto simp: image_iff intro: bexI [of _ "(r, iv)"])
  also have "fst iv \<le> snd iv"
    by (rule update_resource_windows_ordered [OF commit mem])
  also have "snd iv \<le> Max (snd ` snd ` set a)"
    using mem by (intro Max_ge) (auto simp: image_iff intro: bexI [of _ "(r, iv)"])
  finally have le: "Min (fst ` snd ` set a) \<le> Max (snd ` snd ` set a)" .
  have "map_of (task_vars st') tid = Some vals"
    unfolding st' by (simp add: map_of_update_same)
  with sv le show ?thesis by simp
qed

text \<open>
  \<open>T\<close> on two resources at once, from 1 to 3 and from 0 to 2: the record has both
  resource ids, the start 0 and the end 3.
\<close>

lemma example_attempt_pair:
  "attempt_task example_pair_env example_dict
     (HeuristicSolver example_dict [example_resource, example_wide]) example_T
   = Inr (Allocated [(1, (1, 3)), (3, (0, 2))])"
  by (simp add: example_defs solver_defs example_pair_env_def example_wide_def)

lemma example_process_pair:
  "process_task example_pair_env example_dict
     (HeuristicSolver example_dict [example_resource, example_wide]) ''T''
   = Inr example_pair_scheduled"
  by (simp add: example_defs solver_defs example_pair_env_def example_wide_def
      example_pair_scheduled_def)

theorem scheduled_values_recorded_witness:
  "attempt_task example_pair_env example_dict
     (HeuristicSolver example_dict [example_resource, example_wide]) example_T
     = Inr (Allocated [(1, (1, 3)), (3, (0, 2))])
   \<and> process_task example_pair_env example_dict
        (HeuristicSolver example_dict [example_resource, example_wide]) ''T''
       = Inr example_pair_scheduled
   \<and> map_of (task_vars example_pair_scheduled) ''T'' =
        Some \<lparr>task_id = ''T'', assigned_resource_ids = Some [1, 3], task_start = Some 0,
              task_end = Some 3, resource_intervals = Some [(1, 3), (0, 2)],
              error_message = Missing\<rparr>
   \<and> Min (fst ` snd ` set [(1::int, (1::int, 3::int)), (3, (0, 2))]) = 0
   \<and> Max (snd ` snd ` set [(1::int, (1::int, 3::int)), (3, (0, 2))]) = 3"
proof -
  have task: "map_of example_dict ''T'' = Some example_T"
    by (simp add: example_defs)
  from scheduled_values_recorded [OF task example_attempt_pair example_process_pair]
  show ?thesis using example_attempt_pair example_process_pair
    by (simp add: example_pair_scheduled_def)
qed

subsection \<open>Records that a step does not touch\<close>

lemma process_task_other:
  assumes "process_task env td st k = Inr st'" and "tid \<noteq> k"
  shows "map_of (task_vars st') tid = map_of (task_vars st) tid"
proof -
  from process_task_cases [OF assms(1)] obtain task
    where cases: "(\<exists>m. attempt_task env td st task = Inr (Unscheduled m) \<and>
                 update_error_message st k m = Inr st') \<or>
            (\<exists>a wm vals. attempt_task env td st task = Inr (Allocated a) \<and>
                 update_resource_windows (window_manager st) a = Inr wm \<and>
                 scheduled_values k a = Inr vals \<and>
                 st' = \<lparr>window_manager = wm,
                        task_vars = AList.update k vals (task_vars st)\<rparr>)"
    by blast
  from cases show ?thesis
  proof (elim disjE exE conjE)
    fix m assume "update_error_message st k m = Inr st'"
    from update_error_message_Inr [OF this] show ?thesis
      using assms(2) by (auto simp: map_of_update_other)
  next
    fix a wm vals
    assume "st' = \<lparr>window_manager = wm, task_vars = AList.update k vals (task_vars st)\<rparr>"
    then show ?thesis using assms(2) by (simp add: map_of_update_other)
  qed
qed

lemma solve_loop_other:
  "solve_loop env td task_order st = Inr st' \<Longrightarrow> tid \<notin> set task_order \<Longrightarrow>
   map_of (task_vars st') tid = map_of (task_vars st) tid"
proof (induction task_order arbitrary: st)
  case Nil
  then show ?case by simp
next
  case (Cons k task_order)
  from Cons.prems(1) obtain st1 where p: "process_task env td st k = Inr st1"
    and r: "solve_loop env td task_order st1 = Inr st'"
    by (simp split: sum.splits)
  from Cons.prems(2) have "tid \<noteq> k" and "tid \<notin> set task_order" by auto
  with Cons.IH [OF r] process_task_other [OF p] show ?case by simp
qed

lemma HeuristicSolver_record:
  "map_of td tid = Some task \<Longrightarrow>
   map_of (task_vars (HeuristicSolver td rs)) tid = Some (initial_values tid)"
proof -
  assume "map_of td tid = Some task"
  then have "tid \<in> set (map fst td)"
    by (metis map_of_eq_None_iff option.distinct(1) list.set_map)
  then have "map_of (map (\<lambda>k. (k, initial_values k)) (map fst td)) tid = Some (initial_values tid)"
    by (induction td) auto
  then show ?thesis by (simp add: HeuristicSolver_def)
qed

lemma run_unprocessed:
  assumes "solve_loop env td processed (HeuristicSolver td rs) = Inr st"
    and "map_of td tid = Some task" and "tid \<notin> set processed"
  shows "map_of (task_vars st) tid = Some (initial_values tid)"
  using solve_loop_other [OF assms(1,3)] HeuristicSolver_record [OF assms(2)] by simp

subsection \<open>What an error outcome writes\<close>

text \<open>
  C10, as the code has it. When a task ends in an error outcome (any of the three
  branches that call \<^verbatim>\<open>_update_error_message\<close>), only the \<^verbatim>\<open>error_message\<close> of
  its own record is written: the other fields of the record, the records of the
  other tasks and the calendars are as before. When the task id has not been
  processed earlier in the run, the other fields are still \<^verbatim>\<open>None\<close> as initialized,
  and the task has no recorded end.
\<close>

theorem error_outcome_frame:
  assumes run: "solve_loop env td processed (HeuristicSolver td rs) = Inr st"
    and task: "map_of td tid = Some task"
    and failed: "attempt_task env td st task = Inr (Unscheduled m)"
  shows "\<exists>st' vals. process_task env td st tid = Inr st'
           \<and> map_of (task_vars st) tid = Some vals
           \<and> task_vars st' =
               AList.update tid (vals\<lparr>error_message := Entry (Some m)\<rparr>) (task_vars st)
           \<and> map_of (task_vars st') tid = Some (vals\<lparr>error_message := Entry (Some m)\<rparr>)
           \<and> (\<forall>k. k \<noteq> tid \<longrightarrow> map_of (task_vars st') k = map_of (task_vars st) k)
           \<and> window_manager st' = window_manager st
           \<and> (tid \<notin> set processed \<longrightarrow>
                vals\<lparr>error_message := Entry (Some m)\<rparr> =
                  \<lparr>task_id = tid, assigned_resource_ids = None, task_start = None,
                   task_end = None, resource_intervals = None,
                   error_message = Entry (Some m)\<rparr>
                \<and> recorded_end (task_vars st') tid = None)"
proof -
  from run_has_record [OF run task] obtain vals
    where vals: "map_of (task_vars st) tid = Some vals" by blast
  let ?vals = "vals\<lparr>error_message := Entry (Some m)\<rparr>"
  let ?st = "st\<lparr>task_vars := AList.update tid ?vals (task_vars st)\<rparr>"
  have p: "process_task env td st tid = Inr ?st"
    by (rule process_task_unscheduled [OF task failed vals])
  have tv: "task_vars ?st = AList.update tid ?vals (task_vars st)" by simp
  have same: "map_of (task_vars ?st) tid = Some ?vals"
    by (simp add: map_of_update_same)
  have other: "\<forall>k. k \<noteq> tid \<longrightarrow> map_of (task_vars ?st) k = map_of (task_vars st) k"
    by (simp add: map_of_update_other)
  have wm: "window_manager ?st = window_manager st" by simp
  have fresh: "tid \<notin> set processed \<longrightarrow>
                ?vals = \<lparr>task_id = tid, assigned_resource_ids = None, task_start = None,
                         task_end = None, resource_intervals = None,
                         error_message = Entry (Some m)\<rparr>
                \<and> recorded_end (task_vars ?st) tid = None"
  proof
    assume "tid \<notin> set processed"
    from run_unprocessed [OF run task this] vals have "vals = initial_values tid" by simp
    then show "?vals = \<lparr>task_id = tid, assigned_resource_ids = None, task_start = None,
                         task_end = None, resource_intervals = None,
                         error_message = Entry (Some m)\<rparr>
                \<and> recorded_end (task_vars ?st) tid = None"
      by (simp add: initial_values_def recorded_end_def map_of_update_same)
  qed
  from p vals tv same other wm fresh show ?thesis by blast
qed

text \<open>
  After \<open>T\<close> is scheduled, \<open>T3\<close> fails for the first time: its record has the message
  and nothing else.
\<close>

lemma example_attempt_T3:
  "attempt_task example_env example_dict example_after_T example_T3
     = Inr (Unscheduled ''insufficient availability'')"
  by (simp add: example_defs solver_defs example_after_T_def)

theorem error_outcome_frame_witness:
  "''T3'' \<notin> set [''T'']
   \<and> (case process_task example_env example_dict example_after_T ''T3'' of
         Inl x \<Rightarrow> False
       | Inr st' \<Rightarrow>
           map_of (task_vars st') ''T3'' =
             Some \<lparr>task_id = ''T3'', assigned_resource_ids = None, task_start = None,
                   task_end = None, resource_intervals = None,
                   error_message = Entry (Some ''insufficient availability'')\<rparr>
           \<and> map_of (task_vars st') ''T'' = map_of (task_vars example_after_T) ''T''
           \<and> window_manager st' = window_manager example_after_T
           \<and> recorded_end (task_vars st') ''T3'' = None)"
proof -
  have task: "map_of example_dict ''T3'' = Some example_T3"
    by (simp add: example_defs)
  from error_outcome_frame [OF example_run_T task example_attempt_T3]
  show ?thesis by auto
qed

text \<open>
  Without the condition that the task id has not been processed before, the fields
  need not be \<^verbatim>\<open>None\<close> after an error outcome: in a task order that names \<open>T\<close> twice,
  \<open>T\<close> is scheduled, then processed again, and the second time the allocator raises.
  The record of \<open>T\<close> then has the message and still has the allocation and the end 3.
\<close>

lemma example_attempt_T_again:
  "attempt_task example_env example_dict example_after_T example_T
     = Inr (Unscheduled ''insufficient availability'')"
  by (simp add: example_defs solver_defs example_after_T_def)

theorem error_outcome_frame_counterexample:
  "solve_loop example_env example_dict [''T'']
     (HeuristicSolver example_dict example_resources) = Inr example_after_T
   \<and> attempt_task example_env example_dict example_after_T example_T
       = Inr (Unscheduled ''insufficient availability'')
   \<and> process_task example_env example_dict example_after_T ''T''
       = Inr (example_after_T\<lparr>task_vars :=
            AList.update ''T''
              (example_T_scheduled\<lparr>error_message := Entry (Some ''insufficient availability'')\<rparr>)
              (task_vars example_after_T)\<rparr>)
   \<and> task_end (example_T_scheduled\<lparr>error_message := Entry (Some ''insufficient availability'')\<rparr>)
       = Some 3
   \<and> allocation_set
        (example_T_scheduled\<lparr>error_message := Entry (Some ''insufficient availability'')\<rparr>)"
proof -
  have task: "map_of example_dict ''T'' = Some example_T"
    by (simp add: example_defs)
  have vals: "map_of (task_vars example_after_T) ''T'' = Some example_T_scheduled"
    by (simp add: example_after_T_def example_T_scheduled_def)
  from process_task_unscheduled [OF task example_attempt_T_again vals] example_run_T
    example_attempt_T_again
  show ?thesis
    by (simp add: example_T_scheduled_def allocation_set_def)
qed

subsection \<open>Allocation or error message\<close>

lemma solve_loop_append:
  "solve_loop env td (xs @ ys) st =
     (case solve_loop env td xs st of Inl x \<Rightarrow> Inl x | Inr st1 \<Rightarrow> solve_loop env td ys st1)"
  by (induction xs arbitrary: st) (simp_all split: sum.splits)

lemma count_list_once:
  assumes "count_list xs x = 1"
  shows "\<exists>pre post. xs = pre @ x # post \<and> x \<notin> set pre \<and> x \<notin> set post"
proof -
  from assms have "x \<in> set xs"
    by (metis count_list_0_iff zero_neq_one)
  from split_list_first [OF this] obtain pre post
    where xs: "xs = pre @ x # post" and pre: "x \<notin> set pre" by blast
  from assms xs pre have "count_list post x = 0"
    by (simp add: count_list_0_iff)
  then have "x \<notin> set post" by (simp add: count_list_0_iff)
  with xs pre show ?thesis by blast
qed

lemma process_task_fresh:
  assumes p: "process_task env td st tid = Inr st'"
    and init: "map_of (task_vars st) tid = Some (initial_values tid)"
  shows "\<exists>vals. map_of (task_vars st') tid = Some vals \<and>
           ((allocation_set vals \<and> \<not> error_set vals) \<or>
            (allocation_unset vals \<and> error_set vals))"
proof -
  from process_task_cases [OF p] obtain task
    where cases: "(\<exists>m. attempt_task env td st task = Inr (Unscheduled m) \<and>
                 update_error_message st tid m = Inr st') \<or>
            (\<exists>a wm vals. attempt_task env td st task = Inr (Allocated a) \<and>
                 update_resource_windows (window_manager st) a = Inr wm \<and>
                 scheduled_values tid a = Inr vals \<and>
                 st' = \<lparr>window_manager = wm,
                        task_vars = AList.update tid vals (task_vars st)\<rparr>)"
    by blast
  from cases show ?thesis
  proof (elim disjE exE conjE)
    fix m assume "update_error_message st tid m = Inr st'"
    from update_error_message_Inr [OF this] init
    have "map_of (task_vars st') tid
            = Some ((initial_values tid)\<lparr>error_message := Entry (Some m)\<rparr>)"
      by (auto simp: map_of_update_same)
    moreover have "allocation_unset ((initial_values tid)\<lparr>error_message := Entry (Some m)\<rparr>)"
      by (simp add: allocation_unset_def initial_values_def)
    moreover have "error_set ((initial_values tid)\<lparr>error_message := Entry (Some m)\<rparr>)"
      by (simp add: error_set_def)
    ultimately show ?thesis by blast
  next
    fix a wm vals
    assume v: "scheduled_values tid a = Inr vals"
      and s: "st' = \<lparr>window_manager = wm, task_vars = AList.update tid vals (task_vars st)\<rparr>"
    from s have "map_of (task_vars st') tid = Some vals"
      by (simp add: map_of_update_same)
    moreover have "allocation_set vals" and "\<not> error_set vals"
      unfolding scheduled_values_Inr(2) [OF v] by (simp_all add: allocation_set_def error_set_def)
    ultimately show ?thesis by blast
  qed
qed

lemma labelled_distinct_map_of:
  assumes "labelled tv" and "distinct (map fst tv)" and "r \<in> set (map snd tv)"
  shows "map_of tv (task_id r) = Some r"
proof -
  from assms(3) obtain k where k: "(k, r) \<in> set tv" by auto
  with assms(1) have "task_id r = k" by (auto simp: labelled_def)
  with k assms(2) show ?thesis by simp
qed

text \<open>
  C8, as the code has it. In a record that \<^verbatim>\<open>solve\<close> returns for a task id that occurs
  exactly once in the task order, exactly one of the two is set: either the complete
  allocation and no error message, or an error message and no field of the
  allocation. The keys of the task dictionary are distinct, as in every Python
  dictionary.
\<close>

theorem exactly_one_when_processed_once:
  assumes returned: "solve env td rs task_order = Inr results"
    and dict: "distinct (map fst td)"
    and member: "r \<in> set results"
    and once: "count_list task_order (task_id r) = 1"
  shows "(allocation_set r \<and> \<not> error_set r) \<or> (allocation_unset r \<and> error_set r)"
proof -
  from returned obtain st
    where st: "solve_loop env td task_order (HeuristicSolver td rs) = Inr st"
      and res: "results = map snd (task_vars st)"
    by (auto simp: solve_def split: sum.splits)
  let ?tid = "task_id r"
  from count_list_once [OF once] obtain pre post
    where order: "task_order = pre @ ?tid # post"
      and pre: "?tid \<notin> set pre" and post: "?tid \<notin> set post"
    by blast
  from st order obtain st1 st2
    where r1: "solve_loop env td pre (HeuristicSolver td rs) = Inr st1"
      and p: "process_task env td st1 ?tid = Inr st2"
      and r2: "solve_loop env td post st2 = Inr st"
    by (auto simp: solve_loop_append split: sum.splits)
  from process_task_cases [OF p] obtain task where task: "map_of td ?tid = Some task"
    by blast
  from process_task_fresh [OF p run_unprocessed [OF r1 task pre]] obtain vals
    where vals: "map_of (task_vars st2) ?tid = Some vals"
      and one: "(allocation_set vals \<and> \<not> error_set vals) \<or>
                (allocation_unset vals \<and> error_set vals)"
    by blast
  from solve_loop_other [OF r2 post] vals
  have final: "map_of (task_vars st) ?tid = Some vals" by simp
  have "distinct (map fst (task_vars st))"
    using run_table(1) [OF st] dict by simp
  from labelled_distinct_map_of [OF run_table(2) [OF st] this] member res
  have "map_of (task_vars st) ?tid = Some r" by simp
  with final have "r = vals" by simp
  with one show ?thesis by simp
qed

text \<open>
  In the run over the reversed order every task is processed once: the record of \<open>T\<close>
  has the allocation only, the record of \<open>T4\<close> the message only.
\<close>

theorem exactly_one_when_processed_once_witness:
  "distinct (map fst example_dict)
   \<and> count_list [''T5'', ''T4'', ''T3'', ''T2'', ''T''] ''T'' = 1
   \<and> count_list [''T5'', ''T4'', ''T3'', ''T2'', ''T''] ''T4'' = 1
   \<and> allocation_set example_T_scheduled \<and> \<not> error_set example_T_scheduled
   \<and> allocation_unset
        ((initial_values ''T4'')\<lparr>error_message := Entry (Some ''No available resources'')\<rparr>)
   \<and> error_set
        ((initial_values ''T4'')\<lparr>error_message := Entry (Some ''No available resources'')\<rparr>)"
proof -
  have dict: "distinct (map fst example_dict)"
    by (simp add: example_defs)
  have m1: "example_T_scheduled \<in> set
      [\<lparr>task_id = ''T'', assigned_resource_ids = Some [1], task_start = Some 0,
            task_end = Some 3, resource_intervals = Some [(0, 3)], error_message = Missing\<rparr>,
          \<lparr>task_id = ''T2'', assigned_resource_ids = None, task_start = None,
            task_end = None, resource_intervals = None,
            error_message = Entry (Some ''Task has unscheduled predecessors'')\<rparr>,
          \<lparr>task_id = ''T3'', assigned_resource_ids = None, task_start = None,
            task_end = None, resource_intervals = None,
            error_message = Entry (Some ''insufficient availability'')\<rparr>,
          \<lparr>task_id = ''T4'', assigned_resource_ids = None, task_start = None,
            task_end = None, resource_intervals = None,
            error_message = Entry (Some ''No available resources'')\<rparr>,
          \<lparr>task_id = ''T5'', assigned_resource_ids = None, task_start = None,
            task_end = None, resource_intervals = None,
            error_message = Entry (Some ''Task has unscheduled predecessors'')\<rparr>]"
    by (simp add: example_T_scheduled_def)
  have m4: "(initial_values ''T4'')\<lparr>error_message := Entry (Some ''No available resources'')\<rparr> \<in> set
      [\<lparr>task_id = ''T'', assigned_resource_ids = Some [1], task_start = Some 0,
            task_end = Some 3, resource_intervals = Some [(0, 3)], error_message = Missing\<rparr>,
          \<lparr>task_id = ''T2'', assigned_resource_ids = None, task_start = None,
            task_end = None, resource_intervals = None,
            error_message = Entry (Some ''Task has unscheduled predecessors'')\<rparr>,
          \<lparr>task_id = ''T3'', assigned_resource_ids = None, task_start = None,
            task_end = None, resource_intervals = None,
            error_message = Entry (Some ''insufficient availability'')\<rparr>,
          \<lparr>task_id = ''T4'', assigned_resource_ids = None, task_start = None,
            task_end = None, resource_intervals = None,
            error_message = Entry (Some ''No available resources'')\<rparr>,
          \<lparr>task_id = ''T5'', assigned_resource_ids = None, task_start = None,
            task_end = None, resource_intervals = None,
            error_message = Entry (Some ''Task has unscheduled predecessors'')\<rparr>]"
    by (simp add: initial_values_def)
  have c1: "count_list [''T5'', ''T4'', ''T3'', ''T2'', ''T''] (task_id example_T_scheduled) = 1"
    by (simp add: example_T_scheduled_def)
  have c4: "count_list [''T5'', ''T4'', ''T3'', ''T2'', ''T'']
      (task_id ((initial_values ''T4'')\<lparr>error_message := Entry (Some ''No available resources'')\<rparr>)) = 1"
    by (simp add: initial_values_def)
  from exactly_one_when_processed_once [OF example_solve_reversed dict m1 c1]
    exactly_one_when_processed_once [OF example_solve_reversed dict m4 c4]
  show ?thesis using dict c1 c4
    by (simp add: example_T_scheduled_def initial_values_def allocation_set_def
        allocation_unset_def error_set_def)
qed

text \<open>
  Without the condition on the task order the statement fails. For the order \<open>T\<close>,
  \<open>T\<close> the record of \<open>T\<close>, scheduled and then failed, has both the allocation and a
  message, and the record of \<open>T2\<close>, which the order does not name, has neither.
\<close>

lemma example_solve_twice:
  "solve example_env example_dict example_resources [''T'', ''T''] =
     Inr [example_T_scheduled\<lparr>error_message := Entry (Some ''insufficient availability'')\<rparr>,
          initial_values ''T2'', initial_values ''T3'', initial_values ''T4'',
          initial_values ''T5'']"
  by (simp add: example_defs solver_defs example_T_scheduled_def)

theorem exactly_one_counterexample:
  "solve example_env example_dict example_resources [''T'', ''T''] =
     Inr [example_T_scheduled\<lparr>error_message := Entry (Some ''insufficient availability'')\<rparr>,
          initial_values ''T2'', initial_values ''T3'', initial_values ''T4'',
          initial_values ''T5'']
   \<and> allocation_set
        (example_T_scheduled\<lparr>error_message := Entry (Some ''insufficient availability'')\<rparr>)
   \<and> error_set
        (example_T_scheduled\<lparr>error_message := Entry (Some ''insufficient availability'')\<rparr>)
   \<and> \<not> allocation_set (initial_values ''T2'')
   \<and> \<not> error_set (initial_values ''T2'')"
  using example_solve_twice
  by (simp add: example_T_scheduled_def initial_values_def allocation_set_def error_set_def)

subsection \<open>Tasks are scheduled after their predecessors\<close>

lemma task_ends_loop_Some:
  "task_ends_loop tv d preds acc = Inr (Some ends) \<Longrightarrow> p \<in> set preds \<Longrightarrow>
   recorded_end tv (id_task p) \<noteq> None"
proof (induction preds arbitrary: acc)
  case Nil
  then show ?case by simp
next
  case (Cons q preds)
  from Cons.prems(1) obtain vals e where q: "map_of tv (id_task q) = Some vals"
    and e: "task_end vals = Some e"
    and rest: "task_ends_loop tv d preds (acc @ [e + d]) = Inr (Some ends)"
    by (auto split: option.splits)
  show ?case
  proof (cases "p = q")
    case True
    then show ?thesis using q e by (simp add: recorded_end_def)
  next
    case False
    with Cons.prems(2) have "p \<in> set preds" by simp
    from Cons.IH [OF rest this] show ?thesis .
  qed
qed

lemma task_ends_loop_None:
  "\<forall>p \<in> set preds. map_of tv (id_task p) \<noteq> None \<Longrightarrow>
   \<exists>p \<in> set preds. recorded_end tv (id_task p) = None \<Longrightarrow>
   task_ends_loop tv d preds acc = Inr None"
  by (induction preds arbitrary: acc)
     (auto simp: recorded_end_def split: option.splits)

lemma earliest_start_Some:
  assumes "get_task_earliest_start env tv task td = Inr (Some est)"
    and "p \<in> set (get_task_predecessors env task td)"
  shows "recorded_end tv (id_task p) \<noteq> None"
proof -
  from assms(1) obtain ends
    where "task_ends_loop tv (predecessor_delay task) (get_task_predecessors env task td) []
             = Inr (Some ends)"
    by (auto simp: get_task_earliest_start_def split: sum.splits option.splits)
  from task_ends_loop_Some [OF this assms(2)] show ?thesis .
qed

lemma earliest_start_None:
  assumes "\<forall>p \<in> set (get_task_predecessors env task td). map_of tv (id_task p) \<noteq> None"
    and "\<exists>p \<in> set (get_task_predecessors env task td). recorded_end tv (id_task p) = None"
  shows "get_task_earliest_start env tv task td = Inr None"
  using task_ends_loop_None [OF assms, of "predecessor_delay task" "[]"]
  by (simp add: get_task_earliest_start_def)

lemma attempt_task_Allocated:
  "attempt_task env td st task = Inr (Allocated a) \<Longrightarrow>
   \<exists>est. get_task_earliest_start env (task_vars st) task td = Inr (Some est)"
  by (auto simp: attempt_task_def split: sum.splits option.splits)

lemma recorded_end_error:
  assumes "update_error_message st tid m = Inr st'"
  shows "recorded_end (task_vars st') k = recorded_end (task_vars st) k"
proof -
  from update_error_message_Inr [OF assms] obtain vals
    where v: "map_of (task_vars st) tid = Some vals"
      and s: "st' = st\<lparr>task_vars :=
              AList.update tid (vals\<lparr>error_message := Entry (Some m)\<rparr>) (task_vars st)\<rparr>"
    by blast
  show ?thesis
  proof (cases "k = tid")
    case True
    then show ?thesis using v s by (simp add: recorded_end_def map_of_update_same)
  next
    case False
    then show ?thesis using s by (simp add: recorded_end_def map_of_update_other)
  qed
qed

lemma recorded_end_scheduled:
  assumes "scheduled_values tid a = Inr vals"
  shows "recorded_end (AList.update tid vals tv) k =
           (if k = tid then task_end vals else recorded_end tv k)"
    and "task_end vals \<noteq> None"
proof -
  show "task_end vals \<noteq> None"
    unfolding scheduled_values_Inr(2) [OF assms] by simp
  show "recorded_end (AList.update tid vals tv) k =
           (if k = tid then task_end vals else recorded_end tv k)"
    by (simp add: recorded_end_def map_of_update_same map_of_update_other)
qed

lemma process_task_ends_closed:
  assumes p: "process_task env td st tid = Inr st'"
    and inv: "ends_closed env td (task_vars st)"
  shows "ends_closed env td (task_vars st')"
proof -
  from process_task_cases [OF p] obtain task where task: "map_of td tid = Some task"
    and cases: "(\<exists>m. attempt_task env td st task = Inr (Unscheduled m) \<and>
                 update_error_message st tid m = Inr st') \<or>
            (\<exists>a wm vals. attempt_task env td st task = Inr (Allocated a) \<and>
                 update_resource_windows (window_manager st) a = Inr wm \<and>
                 scheduled_values tid a = Inr vals \<and>
                 st' = \<lparr>window_manager = wm,
                        task_vars = AList.update tid vals (task_vars st)\<rparr>)"
    by blast
  from cases show ?thesis
  proof (elim disjE exE conjE)
    fix m assume "update_error_message st tid m = Inr st'"
    from recorded_end_error [OF this] inv show ?thesis
      by (simp add: ends_closed_def)
  next
    fix a wm vals
    assume att: "attempt_task env td st task = Inr (Allocated a)"
      and v: "scheduled_values tid a = Inr vals"
      and s: "st' = \<lparr>window_manager = wm, task_vars = AList.update tid vals (task_vars st)\<rparr>"
    from attempt_task_Allocated [OF att] obtain est
      where est: "get_task_earliest_start env (task_vars st) task td = Inr (Some est)"
      by blast
    note re = recorded_end_scheduled [OF v]
    have grow: "recorded_end (task_vars st) k \<noteq> None \<Longrightarrow> recorded_end (task_vars st') k \<noteq> None"
      for k
      unfolding s using re by simp
    show ?thesis
      unfolding ends_closed_def
    proof (intro allI impI ballI)
      fix k t q
      assume kt: "map_of td k = Some t"
        and ended: "recorded_end (task_vars st') k \<noteq> None"
        and q: "q \<in> set (get_task_predecessors env t td)"
      show "recorded_end (task_vars st') (id_task q) \<noteq> None"
      proof (cases "k = tid")
        case True
        with kt task have "t = task" by simp
        with earliest_start_Some [OF est] q
        have "recorded_end (task_vars st) (id_task q) \<noteq> None" by simp
        then show ?thesis by (rule grow)
      next
        case False
        with ended have "recorded_end (task_vars st) k \<noteq> None"
          unfolding s using re(1) by simp
        with inv kt q have "recorded_end (task_vars st) (id_task q) \<noteq> None"
          unfolding ends_closed_def by blast
        then show ?thesis by (rule grow)
      qed
    qed
  qed
qed

lemma solve_loop_ends_closed:
  "solve_loop env td task_order st = Inr st' \<Longrightarrow> ends_closed env td (task_vars st) \<Longrightarrow>
   ends_closed env td (task_vars st')"
proof (induction task_order arbitrary: st)
  case Nil
  then show ?case by simp
next
  case (Cons k task_order)
  from Cons.prems(1) obtain st1 where p: "process_task env td st k = Inr st1"
    and r: "solve_loop env td task_order st1 = Inr st'"
    by (simp split: sum.splits)
  from Cons.IH [OF r process_task_ends_closed [OF p Cons.prems(2)]] show ?case .
qed

lemma HeuristicSolver_no_end:
  "recorded_end (task_vars (HeuristicSolver td rs)) k = None"
proof -
  have "recorded_end (map (\<lambda>k. (k, initial_values k)) ks) k = None" for ks
    by (induction ks) (simp_all add: recorded_end_def initial_values_def)
  from this [of "map fst td"] show ?thesis
    by (simp add: HeuristicSolver_def del: map_map)
qed

lemma run_ends_closed:
  assumes "solve_loop env td processed (HeuristicSolver td rs) = Inr st"
  shows "ends_closed env td (task_vars st)"
proof -
  have "ends_closed env td (task_vars (HeuristicSolver td rs))"
    by (simp add: ends_closed_def HeuristicSolver_no_end)
  from solve_loop_ends_closed [OF assms this] show ?thesis .
qed

subsection \<open>Blocked tasks\<close>

lemma same_keys_record:
  assumes "map fst tv = map fst td" and "map_of td k \<noteq> None"
  shows "map_of tv k \<noteq> None"
proof -
  from assms(2) obtain v where "map_of td k = Some v" by blast
  from map_of_keys_Some [OF assms(1) this] show ?thesis by auto
qed

lemma blocked_attempt:
  assumes keys: "map fst (task_vars st) = map fst td"
    and known: "\<forall>p \<in> set (get_task_predecessors env task td). map_of td (id_task p) \<noteq> None"
    and unended: "\<exists>p \<in> set (get_task_predecessors env task td).
                    recorded_end (task_vars st) (id_task p) = None"
  shows "attempt_task (env\<lparr>get_unique_resources := uniq, allocate_task := alloc\<rparr>) td st task
           = Inr (Unscheduled ''Task has unscheduled predecessors'')"
proof -
  have "\<forall>p \<in> set (get_task_predecessors env task td). map_of (task_vars st) (id_task p) \<noteq> None"
    using known same_keys_record [OF keys] by blast
  from earliest_start_None [OF this unended]
  have "get_task_earliest_start env (task_vars st) task td = Inr None" .
  then have "get_task_earliest_start (env\<lparr>get_unique_resources := uniq, allocate_task := alloc\<rparr>)
               (task_vars st) task td = Inr None"
    by (simp add: get_task_earliest_start_def)
  then show ?thesis by (simp add: attempt_task_def)
qed

text \<open>
  C4. When a predecessor of a task has no recorded end at the moment the task is
  processed (the predecessors being tasks of the dictionary), the task gets the
  message \<open>Task has unscheduled predecessors\<close> and is skipped: the outcome is the
  same whatever \<^verbatim>\<open>get_unique_resources\<close> and the allocator are (neither the window
  query nor the allocation takes place), and no calendar changes. The task's own end
  stays undefined, and as long as it is (the run from there on does not process the
  task again), every task that has it among its predecessors is blocked in turn.
\<close>

theorem blocked_task_skipped:
  assumes run: "solve_loop env td processed (HeuristicSolver td rs) = Inr st"
    and task: "map_of td tid = Some task"
    and known: "\<forall>p \<in> set (get_task_predecessors env task td). map_of td (id_task p) \<noteq> None"
    and unended: "\<exists>p \<in> set (get_task_predecessors env task td).
                    recorded_end (task_vars st) (id_task p) = None"
  shows "\<exists>st' vals.
           (\<forall>uniq alloc.
              process_task (env\<lparr>get_unique_resources := uniq, allocate_task := alloc\<rparr>) td st tid
                = Inr st')
         \<and> process_task env td st tid = Inr st'
         \<and> window_manager st' = window_manager st
         \<and> map_of (task_vars st') tid = Some vals
         \<and> error_message vals = Entry (Some ''Task has unscheduled predecessors'')
         \<and> recorded_end (task_vars st') tid = None
         \<and> (\<forall>rest. solve_loop env td (tid # rest) st = solve_loop env td rest st')
         \<and> (\<forall>later st'' succ.
               solve_loop env td later st' = Inr st'' \<and> tid \<notin> set later
               \<and> (\<exists>p \<in> set (get_task_predecessors env succ td). id_task p = tid)
               \<and> (\<forall>p \<in> set (get_task_predecessors env succ td). map_of td (id_task p) \<noteq> None)
               \<longrightarrow> recorded_end (task_vars st'') tid = None
                   \<and> attempt_task env td st'' succ
                       = Inr (Unscheduled ''Task has unscheduled predecessors''))"
proof -
  note keys = run_table(1) [OF run]
  from run_has_record [OF run task] obtain vals
    where vals: "map_of (task_vars st) tid = Some vals" by blast
  let ?m = "''Task has unscheduled predecessors''"
  let ?vals = "vals\<lparr>error_message := Entry (Some ?m)\<rparr>"
  let ?st = "st\<lparr>task_vars := AList.update tid ?vals (task_vars st)\<rparr>"
  have p: "process_task (env\<lparr>get_unique_resources := uniq, allocate_task := alloc\<rparr>) td st tid
             = Inr ?st" for uniq alloc
    by (rule process_task_unscheduled [OF task blocked_attempt [OF keys known unended] vals])
  from p [where uniq = "get_unique_resources env" and alloc = "allocate_task env"]
  have p': "process_task env td st tid = Inr ?st" by simp
  have wm: "window_manager ?st = window_manager st" by simp
  have same: "map_of (task_vars ?st) tid = Some ?vals"
    by (simp add: map_of_update_same)
  have msg: "error_message ?vals = Entry (Some ?m)" by simp
  have no_end_before: "recorded_end (task_vars st) tid = None"
  proof (rule ccontr)
    assume "recorded_end (task_vars st) tid \<noteq> None"
    with run_ends_closed [OF run] task
    have "\<forall>p \<in> set (get_task_predecessors env task td).
            recorded_end (task_vars st) (id_task p) \<noteq> None"
      unfolding ends_closed_def by blast
    with unended show False by blast
  qed
  then have "task_end vals = None" using vals by (simp add: recorded_end_def)
  then have no_end: "recorded_end (task_vars ?st) tid = None"
    by (simp add: recorded_end_def map_of_update_same)
  have cont: "\<forall>rest. solve_loop env td (tid # rest) st = solve_loop env td rest ?st"
    using p' by simp
  have keys': "map fst (task_vars ?st) = map fst td"
    by (rule process_task_table(1) [OF p' keys])
  have lab': "labelled (task_vars ?st)"
    by (rule process_task_table(2) [OF p' keys run_table(2) [OF run]])
  have succs: "\<forall>later st'' succ.
               solve_loop env td later ?st = Inr st'' \<and> tid \<notin> set later
               \<and> (\<exists>p \<in> set (get_task_predecessors env succ td). id_task p = tid)
               \<and> (\<forall>p \<in> set (get_task_predecessors env succ td). map_of td (id_task p) \<noteq> None)
               \<longrightarrow> recorded_end (task_vars st'') tid = None
                   \<and> attempt_task env td st'' succ = Inr (Unscheduled ?m)"
  proof (intro allI impI, elim conjE)
    fix later st'' succ
    assume later: "solve_loop env td later ?st = Inr st''"
      and notin: "tid \<notin> set later"
      and is_succ: "\<exists>p \<in> set (get_task_predecessors env succ td). id_task p = tid"
      and known_succ: "\<forall>p \<in> set (get_task_predecessors env succ td).
                         map_of td (id_task p) \<noteq> None"
    from solve_loop_other [OF later notin] no_end
    have ne: "recorded_end (task_vars st'') tid = None"
      by (simp add: recorded_end_def)
    from solve_loop_table [OF later keys' lab']
    have keys'': "map fst (task_vars st'') = map fst td" by simp
    from is_succ ne
    have "\<exists>p \<in> set (get_task_predecessors env succ td).
            recorded_end (task_vars st'') (id_task p) = None"
      by auto
    from blocked_attempt [OF keys'' known_succ this,
        where uniq = "get_unique_resources env" and alloc = "allocate_task env"]
    have "attempt_task env td st'' succ = Inr (Unscheduled ?m)" by simp
    with ne show "recorded_end (task_vars st'') tid = None
        \<and> attempt_task env td st'' succ = Inr (Unscheduled ?m)" by simp
  qed
  show ?thesis
    apply (rule exI [of _ ?st])
    apply (rule exI [of _ ?vals])
    using p p' wm same msg no_end cont succs
    apply (intro conjI)
           apply blast
          apply assumption+
    done
qed

text \<open>
  \<open>T2\<close> is processed first, while \<open>T\<close> has no end: it is blocked, even with
  collaborators that would fail when called. \<open>T\<close> is scheduled next, and \<open>T5\<close>, which
  follows \<open>T2\<close>, is blocked in turn.
\<close>

lemma example_blocked_T2:
  "process_task example_env example_dict (HeuristicSolver example_dict example_resources) ''T2''
     = Inr example_T2_blocked"
  by (simp add: example_defs solver_defs example_T2_blocked_def)

lemma example_blocked_then_T:
  "solve_loop example_env example_dict [''T''] example_T2_blocked = Inr example_T2_blocked_T"
  by (simp add: example_defs solver_defs example_T2_blocked_def example_T2_blocked_T_def
      example_T_scheduled_def)

theorem blocked_task_skipped_witness:
  "recorded_end (task_vars (HeuristicSolver example_dict example_resources)) ''T'' = None
   \<and> process_task
        (example_env\<lparr>get_unique_resources := \<lambda>t. [],
                      allocate_task := \<lambda>d a n c. Inl (OtherException ''called'')\<rparr>)
        example_dict (HeuristicSolver example_dict example_resources) ''T2''
       = Inr example_T2_blocked
   \<and> window_manager example_T2_blocked
       = window_manager (HeuristicSolver example_dict example_resources)
   \<and> map_option error_message (map_of (task_vars example_T2_blocked) ''T2'')
       = Some (Entry (Some ''Task has unscheduled predecessors''))
   \<and> recorded_end (task_vars example_T2_blocked) ''T2'' = None
   \<and> solve_loop example_env example_dict [''T''] example_T2_blocked = Inr example_T2_blocked_T
   \<and> recorded_end (task_vars example_T2_blocked_T) ''T'' = Some 3
   \<and> attempt_task example_env example_dict example_T2_blocked_T example_T5
       = Inr (Unscheduled ''Task has unscheduled predecessors'')"
proof -
  have run: "solve_loop example_env example_dict []
               (HeuristicSolver example_dict example_resources)
             = Inr (HeuristicSolver example_dict example_resources)"
    by simp
  have task: "map_of example_dict ''T2'' = Some example_T2"
    by (simp add: example_defs)
  have preds: "get_task_predecessors example_env example_T2 example_dict = [example_T]"
    by (simp add: example_defs)
  have known: "\<forall>p \<in> set (get_task_predecessors example_env example_T2 example_dict).
                 map_of example_dict (id_task p) \<noteq> None"
    unfolding preds by (simp add: example_defs)
  have no_end: "recorded_end (task_vars (HeuristicSolver example_dict example_resources)) ''T''
                  = None"
    by (rule HeuristicSolver_no_end)
  have unended: "\<exists>p \<in> set (get_task_predecessors example_env example_T2 example_dict).
       recorded_end (task_vars (HeuristicSolver example_dict example_resources)) (id_task p)
         = None"
    unfolding preds using no_end by (simp add: example_defs)
  have succ: "\<exists>p \<in> set (get_task_predecessors example_env example_T5 example_dict).
                id_task p = ''T2''"
    by (simp add: example_defs)
  have known5: "\<forall>p \<in> set (get_task_predecessors example_env example_T5 example_dict).
                 map_of example_dict (id_task p) \<noteq> None"
    by (simp add: example_defs)
  have later: "''T2'' \<notin> set [''T'']" by simp
  have ended: "recorded_end (task_vars example_T2_blocked_T) ''T'' = Some 3"
    by (simp add: example_T2_blocked_T_def recorded_end_def example_T_scheduled_def)
  from blocked_task_skipped [OF run task known unended] obtain st' vals
    where a: "\<forall>uniq alloc.
              process_task (example_env\<lparr>get_unique_resources := uniq, allocate_task := alloc\<rparr>)
                example_dict (HeuristicSolver example_dict example_resources) ''T2'' = Inr st'"
      and b: "process_task example_env example_dict
                (HeuristicSolver example_dict example_resources) ''T2'' = Inr st'"
      and c: "window_manager st' = window_manager (HeuristicSolver example_dict example_resources)"
      and d: "map_of (task_vars st') ''T2'' = Some vals"
      and e: "error_message vals = Entry (Some ''Task has unscheduled predecessors'')"
      and f: "recorded_end (task_vars st') ''T2'' = None"
      and g: "\<forall>later st'' succ.
               solve_loop example_env example_dict later st' = Inr st'' \<and> ''T2'' \<notin> set later
               \<and> (\<exists>p \<in> set (get_task_predecessors example_env succ example_dict).
                     id_task p = ''T2'')
               \<and> (\<forall>p \<in> set (get_task_predecessors example_env succ example_dict).
                     map_of example_dict (id_task p) \<noteq> None)
               \<longrightarrow> recorded_end (task_vars st'') ''T2'' = None
                   \<and> attempt_task example_env example_dict st'' succ
                       = Inr (Unscheduled ''Task has unscheduled predecessors'')"
    by blast
  from b example_blocked_T2 have st': "st' = example_T2_blocked" by simp
  from g example_blocked_then_T later succ known5
  have h: "attempt_task example_env example_dict example_T2_blocked_T example_T5
             = Inr (Unscheduled ''Task has unscheduled predecessors'')"
    unfolding st' by blast
  from a have a': "process_task
        (example_env\<lparr>get_unique_resources := \<lambda>t. [],
                      allocate_task := \<lambda>d a n c. Inl (OtherException ''called'')\<rparr>)
        example_dict (HeuristicSolver example_dict example_resources) ''T2''
       = Inr st'" by blast
  show ?thesis
    using no_end a' c d e f h example_blocked_then_T ended unfolding st' by simp
qed

section \<open>Calendars\<close>

subsection \<open>Merging\<close>

lemma covered_Nil [simp]: "covered [] = {}"
  by (simp add: covered_def)

lemma covered_Cons [simp]: "covered (w # ws) = span w \<union> covered ws"
  by (simp add: covered_def)

lemma covered_append [simp]: "covered (xs @ ys) = covered xs \<union> covered ys"
  by (simp add: covered_def)

lemma span_pair [simp]: "span (a, b) = {a ..< b}"
  by (simp add: span_def)

lemma covered_mem: "x \<in> covered ws \<Longrightarrow> \<exists>w \<in> set ws. fst w \<le> x \<and> x < snd w"
  by (auto simp: covered_def span_def)

lemma normalise_starts:
  "y \<in> set (normalise ws) \<Longrightarrow> \<exists>w \<in> set ws. fst w = fst y"
  by (induction ws arbitrary: y rule: normalise.induct) (auto split: if_splits)

lemma sorted_windows_Cons:
  "sorted_windows ((s, e) # ws) =
     (s < e \<and> (\<forall>w \<in> set ws. e \<le> fst w) \<and> sorted_windows ws)"
  by (auto simp: sorted_windows_def)

lemma separated_Cons:
  "separated ((s, e) # ws) = (s < e \<and> (\<forall>w \<in> set ws. e < fst w) \<and> separated ws)"
  by (auto simp: separated_def)

lemma normalise_separated:
  "sorted_windows ws \<Longrightarrow> separated (normalise ws)"
proof (induction ws rule: normalise.induct)
  case 1
  then show ?case by (simp add: separated_def)
next
  case (2 w)
  then show ?case by (simp add: separated_def sorted_windows_def)
next
  case (3 s e s' e' ws)
  from "3.prems" have se: "s < e" and es: "e \<le> s'" and s'e': "s' < e'"
    and far: "\<forall>w \<in> set ws. e' \<le> fst w" and rest: "sorted_windows ws"
    by (auto simp: sorted_windows_Cons)
  show ?case
  proof (cases "s' \<le> e")
    case True
    with es s'e' have m: "max e e' = e'" by simp
    have "sorted_windows ((s, max e e') # ws)"
      unfolding m using se es s'e' far rest by (simp add: sorted_windows_Cons)
    from "3.IH"(1) [OF True this] True show ?thesis by simp
  next
    case False
    have sw: "sorted_windows ((s', e') # ws)"
      using s'e' far rest by (simp add: sorted_windows_Cons)
    have "\<forall>y \<in> set (normalise ((s', e') # ws)). e < fst y"
    proof
      fix y assume "y \<in> set (normalise ((s', e') # ws))"
      from normalise_starts [OF this] obtain w
        where w: "w \<in> set ((s', e') # ws)" and eq: "fst w = fst y" by blast
      from w far s'e' False have "e < fst w" by auto
      with eq show "e < fst y" by simp
    qed
    with "3.IH"(2) [OF False sw] False se show ?thesis
      by (simp add: separated_Cons)
  qed
qed

lemma normalise_covered:
  "sorted_windows ws \<Longrightarrow> covered (normalise ws) = covered ws"
proof (induction ws rule: normalise.induct)
  case 1
  then show ?case by simp
next
  case (2 w)
  then show ?case by simp
next
  case (3 s e s' e' ws)
  from "3.prems" have se: "s < e" and es: "e \<le> s'" and s'e': "s' < e'"
    and far: "\<forall>w \<in> set ws. e' \<le> fst w" and rest: "sorted_windows ws"
    by (auto simp: sorted_windows_Cons)
  show ?case
  proof (cases "s' \<le> e")
    case True
    with es s'e' have m: "max e e' = e'" and eq: "s' = e" by simp_all
    have "sorted_windows ((s, max e e') # ws)"
      unfolding m using se es s'e' far rest by (simp add: sorted_windows_Cons)
    from "3.IH"(1) [OF True this] True
    have "covered (normalise ((s, e) # (s', e') # ws)) = {s ..< e'} \<union> covered ws"
      by (simp add: m)
    moreover have "{s ..< e'} = {s ..< e} \<union> {s' ..< e'}"
      unfolding eq using se s'e' eq by auto
    ultimately show ?thesis by (simp add: Un_assoc)
  next
    case False
    have sw: "sorted_windows ((s', e') # ws)"
      using s'e' far rest by (simp add: sorted_windows_Cons)
    from "3.IH"(2) [OF False sw] False show ?thesis by simp
  qed
qed

lemma separated_sorted_windows: "separated ws \<Longrightarrow> sorted_windows ws"
  unfolding separated_def sorted_windows_def
  by (auto intro: sorted_wrt_mono_rel [of ws "\<lambda>w w'. snd w < fst w'"])

lemma separated_sorted_start: "separated ws \<Longrightarrow> sorted_wrt (<) (map fst ws)"
proof (induction ws)
  case Nil
  then show ?case by simp
next
  case (Cons w ws)
  obtain s e where w: "w = (s, e)" by (cases w) auto
  from Cons.prems have a: "s < e" and b: "\<forall>y \<in> set ws. e < fst y" and c: "separated ws"
    unfolding w by (simp_all add: separated_Cons)
  from a b have "\<forall>y \<in> set ws. s < fst y" by auto
  with Cons.IH [OF c] show ?case unfolding w by simp
qed

subsection \<open>Removing a span\<close>

lemma remove_span_sub:
  "remove_span ws (s, e) = Some ws' \<Longrightarrow> span (s, e) \<subseteq> covered ws"
proof (induction ws arbitrary: ws')
  case Nil
  then show ?case by simp
next
  case (Cons w ws)
  obtain a b where w: "w = (a, b)" by (cases w) auto
  show ?case
  proof (cases "a \<le> s \<and> s \<le> e \<and> e \<le> b")
    case True
    then show ?thesis unfolding w by auto
  next
    case False
    with Cons.prems obtain r where "remove_span ws (s, e) = Some r"
      unfolding w by auto
    from Cons.IH [OF this] show ?thesis by auto
  qed
qed

lemma remove_span_sorted:
  "separated ws \<Longrightarrow> remove_span ws (s, e) = Some ws' \<Longrightarrow>
   sorted_windows ws' \<and> covered ws' = covered ws - span (s, e)
   \<and> (\<forall>y \<in> set ws'. \<exists>w \<in> set ws. fst w \<le> fst y)"
proof (induction ws arbitrary: ws')
  case Nil
  then show ?case by simp
next
  case (Cons w ws)
  obtain a b where w: "w = (a, b)" by (cases w) auto
  from Cons.prems(1) have ab: "a < b" and far: "\<forall>y \<in> set ws. b < fst y"
    and sep: "separated ws"
    unfolding w by (simp_all add: separated_Cons)
  have beyond: "x \<in> covered ws \<Longrightarrow> b < x" for x
    using covered_mem [of x ws] far by fastforce
  show ?case
  proof (cases "a \<le> s \<and> s \<le> e \<and> e \<le> b")
    case True
    with Cons.prems(2)
    have ws': "ws' = (if a < s then [(a, s)] else []) @ (if e < b then [(e, b)] else []) @ ws"
      unfolding w by simp
    have sw: "sorted_windows ws"
      by (rule separated_sorted_windows [OF sep])
    have far': "\<forall>y \<in> set ws. b \<le> fst y" using far by auto
    have 1: "sorted_windows ws'"
      unfolding ws' using True sw far' by (auto simp: sorted_windows_Cons)
    have dis: "covered ws \<inter> {s ..< e} = {}"
    proof (rule ccontr)
      assume "covered ws \<inter> {s ..< e} \<noteq> {}"
      then obtain x where x: "x \<in> covered ws" and "s \<le> x" and "x < e" by auto
      with beyond [OF x] True show False by simp
    qed
    have keep: "covered ws - {s ..< e} = covered ws" using dis by blast
    have parts: "covered ws' = ({a ..< s} \<union> {e ..< b}) \<union> covered ws"
      unfolding ws' by (simp add: Un_assoc)
    have cut: "{a ..< b} - {s ..< e} = {a ..< s} \<union> {e ..< b}"
      using True by auto
    have "covered (w # ws) - span (s, e) = ({a ..< b} - {s ..< e}) \<union> (covered ws - {s ..< e})"
      unfolding w by (simp add: Un_Diff)
    then have 2: "covered ws' = covered (w # ws) - span (s, e)"
      unfolding parts cut keep by simp
    have 3: "\<forall>y \<in> set ws'. \<exists>x \<in> set (w # ws). fst x \<le> fst y"
      unfolding ws' w using True by auto
    from 1 2 3 show ?thesis by blast
  next
    case False
    with Cons.prems(2) obtain r where r: "remove_span ws (s, e) = Some r"
      and ws': "ws' = (a, b) # r"
      unfolding w by auto
    from Cons.IH [OF sep r] have sr: "sorted_windows r"
      and cr: "covered r = covered ws - span (s, e)"
      and fr: "\<forall>y \<in> set r. \<exists>x \<in> set ws. fst x \<le> fst y"
      by blast+
    have "\<forall>y \<in> set r. b \<le> fst y"
    proof
      fix y assume "y \<in> set r"
      with fr obtain x where "x \<in> set ws" and "fst x \<le> fst y" by blast
      with far show "b \<le> fst y" by fastforce
    qed
    with sr ab have 1: "sorted_windows ws'"
      unfolding ws' by (simp add: sorted_windows_Cons)
    have "span (s, e) \<inter> {a ..< b} = {}"
    proof (rule ccontr)
      assume "span (s, e) \<inter> {a ..< b} \<noteq> {}"
      then obtain x where x: "x \<in> span (s, e)" and "x < b" by auto
      with remove_span_sub [OF r] have "x \<in> covered ws" by blast
      from beyond [OF this] \<open>x < b\<close> show False by simp
    qed
    then have "{a ..< b} - span (s, e) = {a ..< b}" by blast
    then have 2: "covered ws' = covered (w # ws) - span (s, e)"
      unfolding ws' w by (simp add: cr Un_Diff)
    have 3: "\<forall>y \<in> set ws'. \<exists>x \<in> set (w # ws). fst x \<le> fst y"
      unfolding ws' w using fr by auto
    from 1 2 3 show ?thesis by blast
  qed
qed

lemma commit_calendar:
  assumes "separated ws" and "remove_span ws iv = Some ws'"
  shows "separated (normalise ws')"
    and "covered (normalise ws') = covered ws - span iv"
    and "span iv \<subseteq> covered ws"
proof -
  obtain s e where iv: "iv = (s, e)" by (cases iv) auto
  from remove_span_sorted [OF assms(1) assms(2) [unfolded iv]]
  have sw: "sorted_windows ws'" and c: "covered ws' = covered ws - span (s, e)" by blast+
  show "separated (normalise ws')" by (rule normalise_separated [OF sw])
  show "covered (normalise ws') = covered ws - span iv"
    using normalise_covered [OF sw] c iv by simp
  show "span iv \<subseteq> covered ws"
    using remove_span_sub [OF assms(2) [unfolded iv]] iv by simp
qed

subsection \<open>Commits\<close>

lemma calendar_update:
  "calendar (AList.update k v wm) rid = (if rid = k then v else calendar wm rid)"
  by (simp add: calendar_def update_conv)

lemma committed_spans_Nil [simp]: "committed_spans rid [] = {}"
  by (simp add: committed_spans_def)

lemma committed_spans_Cons [simp]:
  "committed_spans rid ((r, iv) # a) = (if r = rid then span iv else {}) \<union> committed_spans rid a"
  by (simp add: committed_spans_def)

lemma committed_spans_mem:
  "(rid, iv) \<in> set a \<Longrightarrow> span iv \<subseteq> committed_spans rid a"
  by (auto simp: committed_spans_def)

lemma update_resource_windows_calendars:
  "\<forall>rid. separated (calendar wm rid) \<Longrightarrow> update_resource_windows wm a = Inr wm' \<Longrightarrow>
   (\<forall>rid. separated (calendar wm' rid))
   \<and> (\<forall>rid. covered (calendar wm' rid) = covered (calendar wm rid) - committed_spans rid a)
   \<and> no_double_booking a
   \<and> (\<forall>(r, iv) \<in> set a. span iv \<subseteq> covered (calendar wm r))"
proof (induction a arbitrary: wm)
  case Nil
  then show ?case by (simp add: no_double_booking_def)
next
  case (Cons x a)
  obtain r iv where x: "x = (r, iv)" by (cases x) auto
  from Cons.prems(2) obtain ws where ws: "remove_span (calendar wm r) iv = Some ws"
    and rest: "update_resource_windows (AList.update r (normalise ws) wm) a = Inr wm'"
    unfolding x by (auto split: option.splits)
  let ?wm = "AList.update r (normalise ws) wm"
  from Cons.prems(1) have sep_r: "separated (calendar wm r)" by blast
  note cc = commit_calendar [OF sep_r ws]
  have sep1: "\<forall>rid. separated (calendar ?wm rid)"
    using Cons.prems(1) cc(1) by (simp add: calendar_update)
  from Cons.IH [OF sep1 rest]
  have sep': "\<forall>rid. separated (calendar wm' rid)"
    and cov': "\<forall>rid. covered (calendar wm' rid) = covered (calendar ?wm rid) - committed_spans rid a"
    and ndb: "no_double_booking a"
    and sub: "\<forall>(r', iv') \<in> set a. span iv' \<subseteq> covered (calendar ?wm r')"
    by blast+
  have cov1: "covered (calendar ?wm rid) =
                covered (calendar wm rid) - (if r = rid then span iv else {})" for rid
    using cc(2) by (simp add: calendar_update)
  have cov: "\<forall>rid. covered (calendar wm' rid) =
                covered (calendar wm rid) - committed_spans rid (x # a)"
  proof
    fix rid
    from cov' have "covered (calendar wm' rid) =
        covered (calendar wm rid) - (if r = rid then span iv else {}) - committed_spans rid a"
      unfolding cov1 by blast
    then show "covered (calendar wm' rid) =
        covered (calendar wm rid) - committed_spans rid (x # a)"
      unfolding x by (simp add: Diff_eq Int_assoc)
  qed
  have rest_sub: "span iv' \<subseteq> covered (calendar wm r')" if "(r', iv') \<in> set a" for r' iv'
  proof -
    from sub that have "span iv' \<subseteq> covered (calendar ?wm r')" by blast
    then show ?thesis unfolding cov1 by blast
  qed
  have sub_all: "\<forall>(r', iv') \<in> set (x # a). span iv' \<subseteq> covered (calendar wm r')"
  proof (intro ballI)
    fix p assume p: "p \<in> set (x # a)"
    obtain r' iv' where p': "p = (r', iv')" by (cases p) auto
    show "case p of (r', iv') \<Rightarrow> span iv' \<subseteq> covered (calendar wm r')"
    proof (cases "p = x")
      case True
      with cc(3) x show ?thesis by (simp del: span_pair)
    next
      case False
      with p p' have "(r', iv') \<in> set a" by simp
      from rest_sub [OF this] show ?thesis unfolding p' by (simp del: span_pair)
    qed
  qed
  have disj: "span iv \<inter> span iv' = {}" if "(r, iv') \<in> set a" for iv'
  proof -
    from sub that have "span iv' \<subseteq> covered (calendar ?wm r)" by blast
    then have "span iv' \<subseteq> covered (calendar wm r) - span iv"
      unfolding cov1 by simp
    then show ?thesis by blast
  qed
  have head: "\<forall>(r', iv') \<in> set a. r = r' \<longrightarrow> span iv \<inter> span iv' = {}"
  proof (intro ballI)
    fix p assume p: "p \<in> set a"
    obtain r' iv' where p': "p = (r', iv')" by (cases p) auto
    show "case p of (r', iv') \<Rightarrow> r = r' \<longrightarrow> span iv \<inter> span iv' = {}"
      unfolding p' using disj [of iv'] p p' by (simp del: span_pair)
  qed
  have "no_double_booking (x # a)"
    using head ndb unfolding x no_double_booking_def by simp
  with sep' cov sub_all show ?case by blast
qed

lemma update_resource_windows_append:
  "update_resource_windows wm (a @ c) =
     (case update_resource_windows wm a of
        Inl x \<Rightarrow> Inl x
      | Inr wm1 \<Rightarrow> update_resource_windows wm1 c)"
proof (induction a arbitrary: wm)
  case Nil
  then show ?case by simp
next
  case (Cons x a)
  obtain r iv where x: "x = (r, iv)" by (cases x) auto
  show ?case unfolding x using Cons.IH by (simp split: option.splits)
qed

lemma process_task_commit:
  assumes "process_task env td st tid = Inr st'"
  shows "update_resource_windows (window_manager st) (committed_by env td st tid)
           = Inr (window_manager st')"
proof -
  from process_task_cases [OF assms] obtain task where task: "map_of td tid = Some task"
    and cases: "(\<exists>m. attempt_task env td st task = Inr (Unscheduled m) \<and>
                 update_error_message st tid m = Inr st') \<or>
            (\<exists>a wm vals. attempt_task env td st task = Inr (Allocated a) \<and>
                 update_resource_windows (window_manager st) a = Inr wm \<and>
                 scheduled_values tid a = Inr vals \<and>
                 st' = \<lparr>window_manager = wm,
                        task_vars = AList.update tid vals (task_vars st)\<rparr>)"
    by blast
  from cases show ?thesis
  proof (elim disjE exE conjE)
    fix m assume att: "attempt_task env td st task = Inr (Unscheduled m)"
      and upd: "update_error_message st tid m = Inr st'"
    from att task have "committed_by env td st tid = []"
      by (simp add: committed_by_def)
    with update_error_message_table(3) [OF upd] show ?thesis by simp
  next
    fix a wm vals
    assume att: "attempt_task env td st task = Inr (Allocated a)"
      and commit: "update_resource_windows (window_manager st) a = Inr wm"
      and s: "st' = \<lparr>window_manager = wm, task_vars = AList.update tid vals (task_vars st)\<rparr>"
    from att task have "committed_by env td st tid = a"
      by (simp add: committed_by_def)
    with commit s show ?thesis by simp
  qed
qed

lemma run_commits:
  "solve_loop env td task_order st = Inr st' \<Longrightarrow>
   update_resource_windows (window_manager st) (committed env td task_order st)
     = Inr (window_manager st')"
proof (induction task_order arbitrary: st)
  case Nil
  then show ?case by simp
next
  case (Cons k task_order)
  from Cons.prems obtain st1 where p: "process_task env td st k = Inr st1"
    and r: "solve_loop env td task_order st1 = Inr st'"
    by (simp split: sum.splits)
  from process_task_commit [OF p] Cons.IH [OF r] p show ?case
    by (simp add: update_resource_windows_append)
qed

lemma foldl_separated:
  "\<forall>rid. separated (calendar d rid) \<Longrightarrow>
   \<forall>r \<in> set rs. sorted_windows (available_windows r) \<Longrightarrow>
   separated (calendar
     (foldl (\<lambda>d r. AList.update (resource_id r) (normalise (available_windows r)) d) d rs) rid)"
proof (induction rs arbitrary: d)
  case Nil
  then show ?case by simp
next
  case (Cons r rs)
  have "\<forall>rid. separated
          (calendar (AList.update (resource_id r) (normalise (available_windows r)) d) rid)"
    using Cons.prems by (simp add: calendar_update normalise_separated)
  from Cons.IH [OF this] Cons.prems(2) show ?case by simp
qed

lemma WindowManager_separated:
  "\<forall>r \<in> set rs. sorted_windows (available_windows r) \<Longrightarrow>
   separated (calendar (WindowManager rs) rid)"
  unfolding WindowManager_def
  by (rule foldl_separated) (simp_all add: calendar_def separated_def)

lemma WindowManager_calendar:
  "distinct (map resource_id rs) \<Longrightarrow> r \<in> set rs \<Longrightarrow>
   calendar (WindowManager rs) (resource_id r) = normalise (available_windows r)"
proof (induction rs rule: rev_induct)
  case Nil
  then show ?case by simp
next
  case (snoc x rs)
  have wm: "WindowManager (rs @ [x]) =
              AList.update (resource_id x) (normalise (available_windows x)) (WindowManager rs)"
    by (simp add: WindowManager_def)
  show ?case
  proof (cases "r = x")
    case True
    then show ?thesis unfolding wm by (simp add: calendar_update)
  next
    case False
    with snoc.prems have mem: "r \<in> set rs" and d: "distinct (map resource_id rs)"
      and fresh: "resource_id x \<notin> resource_id ` set rs" by auto
    from mem have "resource_id r \<in> resource_id ` set rs" by simp
    with fresh have "resource_id r \<noteq> resource_id x" by metis
    with snoc.IH [OF d mem] show ?thesis unfolding wm by (simp add: calendar_update)
  qed
qed

text \<open>
  C1. The resources come with windows sorted by start, not overlapping and not empty.
  Then in every state that a run reaches, that is after every commit of the run, the
  calendar of every resource is separated (its windows are in strict order, no two
  of them overlap or touch, none is empty), hence sorted strictly by start, and it
  covers exactly the original availability of the resource minus all the intervals
  committed on the resource so far. No two committed intervals of one resource
  share a point of time, so no two scheduled tasks occupy overlapping time on a
  resource. The original availability is that of the windows the resource came with.
\<close>

theorem calendars_after_commits:
  assumes avail: "\<forall>r \<in> set rs. sorted_windows (available_windows r)"
    and run: "solve_loop env td task_order (HeuristicSolver td rs) = Inr st"
  shows "(\<forall>rid.
            separated (calendar (window_manager st) rid)
          \<and> sorted_wrt (<) (map fst (calendar (window_manager st) rid))
          \<and> covered (calendar (window_manager st) rid) =
              covered (calendar (WindowManager rs) rid)
                - committed_spans rid (committed env td task_order (HeuristicSolver td rs)))
         \<and> no_double_booking (committed env td task_order (HeuristicSolver td rs))
         \<and> (\<forall>r \<in> set rs. distinct (map resource_id rs) \<longrightarrow>
               covered (calendar (WindowManager rs) (resource_id r))
                 = covered (available_windows r))"
proof -
  let ?c = "committed env td task_order (HeuristicSolver td rs)"
  have wm0: "window_manager (HeuristicSolver td rs) = WindowManager rs"
    by (simp add: HeuristicSolver_def)
  from run_commits [OF run]
  have commits: "update_resource_windows (WindowManager rs) ?c = Inr (window_manager st)"
    unfolding wm0 .
  have sep0: "\<forall>rid. separated (calendar (WindowManager rs) rid)"
    using WindowManager_separated [OF avail] by blast
  from update_resource_windows_calendars [OF sep0 commits]
  have sep: "\<forall>rid. separated (calendar (window_manager st) rid)"
    and cov: "\<forall>rid. covered (calendar (window_manager st) rid) =
                covered (calendar (WindowManager rs) rid) - committed_spans rid ?c"
    and ndb: "no_double_booking ?c"
    by blast+
  have orig: "\<forall>r \<in> set rs. distinct (map resource_id rs) \<longrightarrow>
               covered (calendar (WindowManager rs) (resource_id r))
                 = covered (available_windows r)"
    using WindowManager_calendar normalise_covered avail by simp
  from sep cov ndb orig separated_sorted_start show ?thesis by blast
qed

text \<open>
  The run over all five tasks: \<open>T\<close>, \<open>T2\<close> and \<open>T5\<close> are committed on resource 1 at
  \<open>[0, 3)\<close>, \<open>[5, 7)\<close> and \<open>[7, 8)\<close>, and the windows \<open>[3, 4)\<close> and \<open>[8, 10)\<close> remain.
\<close>

lemma example_run_all:
  "solve_loop example_env example_dict example_order
     (HeuristicSolver example_dict example_resources) = Inr example_final"
  by (simp add: example_defs solver_defs example_order_def example_final_def
      example_T_scheduled_def)

lemma example_committed:
  "committed example_env example_dict example_order
     (HeuristicSolver example_dict example_resources)
   = [(1, (0, 3)), (1, (5, 7)), (1, (7, 8))]"
  by (simp add: example_defs solver_defs example_order_def committed_by_def)

theorem calendars_after_commits_witness:
  "sorted_windows (available_windows example_resource)
   \<and> sorted_windows (available_windows example_idle)
   \<and> solve_loop example_env example_dict example_order
        (HeuristicSolver example_dict example_resources) = Inr example_final
   \<and> calendar (WindowManager example_resources) 1 = [(0, 4), (5, 10)]
   \<and> calendar (window_manager example_final) 1 = [(3, 4), (8, 10)]
   \<and> separated [(3, 4), (8, 10)]
   \<and> covered [(3, 4), (8, 10)] =
       covered [(0, 4), (5, 10)] - committed_spans 1 [(1, (0, 3)), (1, (5, 7)), (1, (7, 8))]
   \<and> no_double_booking [(1, (0, 3)), (1, (5, 7)), (1, (7, 8))]"
proof -
  have a1: "sorted_windows (available_windows example_resource)"
    by (simp add: example_resource_def sorted_windows_def)
  have a2: "sorted_windows (available_windows example_idle)"
    by (simp add: example_idle_def sorted_windows_def)
  have avail: "\<forall>r \<in> set example_resources. sorted_windows (available_windows r)"
    using a1 a2 by (simp add: example_resources_def)
  have c0: "calendar (WindowManager example_resources) 1 = [(0, 4), (5, 10)]"
    by (simp add: example_defs WindowManager_def calendar_def)
  have c1: "calendar (window_manager example_final) 1 = [(3, 4), (8, 10)]"
    by (simp add: example_final_def calendar_def)
  from calendars_after_commits [OF avail example_run_all]
  have "separated (calendar (window_manager example_final) 1)"
    and "covered (calendar (window_manager example_final) 1) =
           covered (calendar (WindowManager example_resources) 1)
             - committed_spans 1 (committed example_env example_dict example_order
                 (HeuristicSolver example_dict example_resources))"
    and "no_double_booking (committed example_env example_dict example_order
                 (HeuristicSolver example_dict example_resources))"
    by blast+
  then show ?thesis
    unfolding example_committed c0 c1 using a1 a2 example_run_all c0 c1 by simp
qed

end
